theory Spec2Isabelle
  imports Complex_Main
begin

section \<open>Integrals over Gaussian basis functions (mess/integrals.py)\<close>

text \<open>
  The arrays of the source hold floating-point numbers; the model computes with
  \<^typ>\<open>real\<close>, so rounding is idealised away and every statement below is about
  the exact arithmetic the floating-point code approximates. Python integers are
  \<^typ>\<open>int\<close>; positions in arrays and counts are \<^typ>\<open>nat\<close>.
\<close>

subsection \<open>Primitives and the names imported from outside the sources\<close>

type_synonym 'a vec3 = "'a \<times> 'a \<times> 'a"

text \<open>Component \<open>k\<close> of a 3-vector, and \<open>vmap\<close> of a function over the three axes.\<close>

fun axis :: "'a vec3 \<Rightarrow> nat \<Rightarrow> 'a" where
  "axis (x, y, z) k = (if k = 0 then x else if k = 1 then y else z)"

definition vmap_axes :: "(nat \<Rightarrow> 'b) \<Rightarrow> 'b vec3" where
  "vmap_axes f = (f 0, f 1, f 2)"

definition vsub :: "real vec3 \<Rightarrow> real vec3 \<Rightarrow> real vec3" where
  "vsub v w = vmap_axes (\<lambda>k. axis v k - axis w k)"

definition inner3 :: "real vec3 \<Rightarrow> real vec3 \<Rightarrow> real" where
  "inner3 v w = axis v 0 * axis w 0 + axis v 1 * axis w 1 + axis v 2 * axis w 2"

definition sum3 :: "'a::plus vec3 \<Rightarrow> 'a" where
  "sum3 = (\<lambda>(x, y, z). x + y + z)"

definition prod3 :: "real vec3 \<Rightarrow> real" where
  "prod3 = (\<lambda>(x, y, z). x * y * z)"

text \<open>
  Modelled from the spec: the class \<open>Primitive\<close> of \<open>mess.primitive\<close> is not among the
  sources. The spec gives it a center, a positive exponent \<open>alpha\<close> and the
  angular-momentum triple \<open>lmn\<close>; the Gaussian product of two primitives carries a
  scalar prefactor, which the kernels read as the field \<open>norm\<close>.
\<close>

record Primitive =
  center :: "real vec3"
  alpha :: real
  lmn :: "int vec3"
  norm_p :: real

text \<open>
  \<open>integrals.py\<close> imports \<open>LMAX\<close> from \<open>mess.units\<close>, the special functions from
  \<open>mess.special\<close> and the Gaussian product rule from \<open>mess.primitive\<close>. None of
  them is among the sources, so the kernels take them as the parameter \<open>E\<close>.
  \<open>binom_factor\<close> receives its optional last argument as an option (\<open>None\<close> when
  the call leaves it out); \<open>gammanu\<close> receives the vector of orders.
\<close>

record env =
  LMAX :: int
  factorial :: "int \<Rightarrow> real"
  factorial2 :: "int \<Rightarrow> real"
  binom :: "int \<Rightarrow> int \<Rightarrow> real"
  binom_factor :: "int \<Rightarrow> int \<Rightarrow> real \<Rightarrow> real \<Rightarrow> int option \<Rightarrow> real list"
  gammanu :: "int list \<Rightarrow> real \<Rightarrow> real list"
  product :: "Primitive \<Rightarrow> Primitive \<Rightarrow> Primitive"

text \<open>Python's \<open>range(k)\<close>: empty when \<open>k \<le> 0\<close>.\<close>

definition py_range :: "int \<Rightarrow> int list" where
  "py_range k = map int [0..<nat k]"

text \<open>
  \<open>jnp.take(xs, i)\<close> on a vector. Every use below reads inside the vector when the
  imported functions return vectors of the lengths the spec gives them.
\<close>

definition jnp_take :: "real list \<Rightarrow> int \<Rightarrow> real" where
  "jnp_take xs i = xs ! nat i"

text \<open>The value of an expression computed in \<open>uint32\<close>: it wraps modulo \<open>2^32\<close>.\<close>

definition u32 :: "int \<Rightarrow> int" where
  "u32 x = x mod 2 ^ 32"

text \<open>
  \<open>jax.ops.segment_sum(data, segment_ids, num_segments)\<close> on a vector: entry \<open>s\<close> of
  the result is the sum of the data whose id is \<open>s\<close>; data whose id is outside
  \<open>[0, num_segments)\<close> is dropped.
\<close>

definition segment_sum :: "real list \<Rightarrow> int list \<Rightarrow> nat \<Rightarrow> real list" where
  "segment_sum data ids num_segments =
     map (\<lambda>s. sum_list (map fst (filter (\<lambda>(d, k). k = int s) (zip data ids))))
       [0..<num_segments]"

subsection \<open>Overlap and kinetic kernels\<close>

text \<open>
  \<open>overlap_axis\<close> is the function \<open>_overlap_primitives\<close> maps over the three axes;
  \<open>palpha\<close> is \<open>p.alpha\<close> of the enclosing scope. The index arrays \<open>s\<close> and \<open>t\<close> are
  \<open>uint32\<close>, so \<open>2 * s - t\<close> and \<open>2 * s - 1\<close> are computed in \<open>uint32\<close>; the other
  expressions mix them with the signed \<open>i\<close> and \<open>j\<close> and are signed.
\<close>

definition overlap_idx :: "int \<Rightarrow> (int \<times> int) list" where
  "overlap_idx L = [(s, t). s \<leftarrow> py_range (L + 1), t \<leftarrow> py_range (2 * s + 1)]"

definition overlap_term :: "env \<Rightarrow> real \<Rightarrow> int \<Rightarrow> int \<Rightarrow> real \<Rightarrow> real \<Rightarrow> int \<times> int \<Rightarrow> real" where
  "overlap_term E palpha i j a b = (\<lambda>(s, t).
     binom E i (u32 (2 * s - t)) * binom E j t
     * (a powi (max (i - u32 (2 * s - t)) 0) * b powi (max (j - t) 0))
     * (factorial2 E (u32 (2 * s - 1)) / (2 * palpha) powi s))"

definition overlap_mask :: "int \<Rightarrow> int \<Rightarrow> int \<times> int \<Rightarrow> bool" where
  "overlap_mask i j = (\<lambda>(s, t). 2 * s - i \<le> t \<and> t \<le> j)"

definition overlap_axis :: "env \<Rightarrow> real \<Rightarrow> int \<Rightarrow> int \<Rightarrow> real \<Rightarrow> real \<Rightarrow> real" where
  "overlap_axis E palpha i j a b =
     sum_list (map (\<lambda>st. if overlap_mask i j st then overlap_term E palpha i j a b st else 0)
                 (overlap_idx (LMAX E)))"

definition overlap_primitives :: "env \<Rightarrow> Primitive \<Rightarrow> Primitive \<Rightarrow> real" where
  "overlap_primitives E a b =
     (let p = product E a b;
          pa = vsub (center p) (center a);
          pb = vsub (center p) (center b);
          out = (pi / alpha p) powr (3 / 2) * norm_p p
      in out * prod3 (vmap_axes (\<lambda>k.
                 overlap_axis E (alpha p) (axis (lmn a) k) (axis (lmn b) k) (axis pa k) (axis pb k))))"

text \<open>\<open>offset_qn\<close>: a copy of \<open>b\<close> with \<open>offset\<close> added to component \<open>ax\<close> of \<open>lmn\<close>.\<close>

definition offset_qn :: "Primitive \<Rightarrow> nat \<Rightarrow> int \<Rightarrow> Primitive" where
  "offset_qn b ax offset =
     b\<lparr>lmn := vmap_axes (\<lambda>k. if k = ax then axis (lmn b) k + offset else axis (lmn b) k)\<rparr>"

definition kinetic_primitives :: "env \<Rightarrow> Primitive \<Rightarrow> Primitive \<Rightarrow> real" where
  "kinetic_primitives E a b =
     (let t0 = alpha b * (2 * of_int (sum3 (lmn b)) + 3) * overlap_primitives E a b;
          t1 = sum3 (vmap_axes (\<lambda>ax. overlap_primitives E a (offset_qn b ax 2)));
          t2 = sum3 (vmap_axes (\<lambda>ax.
                 of_int (axis (lmn b) ax * (axis (lmn b) ax - 1))
                 * overlap_primitives E a (offset_qn b ax (- 2))))
      in t0 - 2 * (alpha b)\<^sup>2 * t1 - 0.5 * t2)"

subsection \<open>Index tables\<close>

text \<open>
  \<open>build_gindex\<close> and \<open>build_cindex\<close> enumerate the index tuples of the combinatorial
  sums. \<open>LMAX\<close> is imported from \<open>mess.units\<close>, which is not among the sources, so
  it is the parameter \<open>L\<close>.
\<close>

definition build_gindex :: "int \<Rightarrow> (int \<times> int \<times> int) list" where
  "build_gindex L =
     [(i, r, u).
        i \<leftarrow> py_range (L + 1),
        r \<leftarrow> py_range (i div 2 + 1),
        u \<leftarrow> py_range ((i - 2 * r) div 2 + 1)]"

definition build_cindex :: "int \<Rightarrow> (int \<times> int \<times> int \<times> int \<times> int) list" where
  "build_cindex L =
     [(i1, i2, r1, r2, u).
        i1 \<leftarrow> py_range (2 * L + 1),
        i2 \<leftarrow> py_range (2 * L + 1),
        r1 \<leftarrow> py_range (i1 div 2 + 1),
        r2 \<leftarrow> py_range (i2 div 2 + 1),
        u \<leftarrow> py_range ((i1 + i2) div 2 - r1 - r2 + 1)]"

text \<open>The segment id computed from a tuple inside \<open>g_term\<close> and \<open>c_term\<close>.\<close>

definition g_index :: "int \<times> int \<times> int \<Rightarrow> int" where
  "g_index = (\<lambda>(i, r, u). i - 2 * r - u)"

definition c_index :: "int \<times> int \<times> int \<times> int \<times> int \<Rightarrow> int" where
  "c_index = (\<lambda>(i1, i2, r1, r2, u). i1 + i2 - 2 * (r1 + r2) - u)"

subsection \<open>Nuclear-attraction kernel\<close>

text \<open>
  \<open>g_value\<close> is the array \<open>g\<close> of \<open>g_term\<close> before masking, at one index tuple;
  \<open>epsilon\<close> comes from the enclosing scope.
\<close>

definition g_value ::
  "env \<Rightarrow> real \<Rightarrow> int \<Rightarrow> int \<Rightarrow> real \<Rightarrow> real \<Rightarrow> real \<Rightarrow> int \<times> int \<times> int \<Rightarrow> real" where
  "g_value E epsilon l1 l2 pa pb cp = (\<lambda>(i, r, u).
     let index = i - 2 * r - u
     in ((- 1) powi (i + u)
         * jnp_take (binom_factor E l1 l2 pa pb None) i
         * factorial E i
         * cp powi (index - u)
         * epsilon powi (r + u))
        / (factorial E r * factorial E u * factorial E (index - u)))"

definition g_masked ::
  "env \<Rightarrow> real \<Rightarrow> int \<Rightarrow> int \<Rightarrow> real \<Rightarrow> real \<Rightarrow> real \<Rightarrow> real list" where
  "g_masked E epsilon l1 l2 pa pb cp =
     map (\<lambda>t. if g_index t \<le> l1 + l2 then g_value E epsilon l1 l2 pa pb cp t else 0)
       (build_gindex (LMAX E))"

definition g_term ::
  "env \<Rightarrow> real \<Rightarrow> int \<Rightarrow> int \<Rightarrow> real \<Rightarrow> real \<Rightarrow> real \<Rightarrow> real list" where
  "g_term E epsilon l1 l2 pa pb cp =
     segment_sum (g_masked E epsilon l1 l2 pa pb cp)
       (map g_index (build_gindex (LMAX E))) (nat (LMAX E + 1))"

definition nuclear_primitives :: "env \<Rightarrow> Primitive \<Rightarrow> Primitive \<Rightarrow> real vec3 \<Rightarrow> real" where
  "nuclear_primitives E a b c =
     (let p = product E a b;
          pa = vsub (center p) (center a);
          pb = vsub (center p) (center b);
          pc = vsub (center p) c;
          epsilon = 1 / (4 * alpha p);
          (Gi, Gj, Gk) = vmap_axes (\<lambda>k.
             g_term E epsilon (axis (lmn a) k) (axis (lmn b) k)
               (axis pa k) (axis pb k) (axis pc k));
          ids = py_range (3 * LMAX E + 1);
          ijk = py_range (LMAX E + 1);
          F = gammanu E ids (alpha p * inner3 pc pc);
          W = [jnp_take Gi i * jnp_take Gj j * jnp_take Gk k * jnp_take F (i + j + k).
                 i \<leftarrow> ijk, j \<leftarrow> ijk, k \<leftarrow> ijk]
      in - 2 * pi / alpha p * norm_p p * sum_list W)"

subsection \<open>Electron-repulsion kernel\<close>

definition H :: "env \<Rightarrow> int \<Rightarrow> int \<Rightarrow> real \<Rightarrow> real \<Rightarrow> int \<Rightarrow> int \<Rightarrow> real \<Rightarrow> real" where
  "H E l1 l2 a b i r gamma =
     (let u = factorial E i * jnp_take (binom_factor E l1 l2 a b (Some (2 * LMAX E))) i;
          v = factorial E r * factorial E (i - 2 * r) * (4 * gamma) powi (i - r)
      in u / v)"

text \<open>
  \<open>c_value\<close> is the array \<open>c\<close> of \<open>c_term\<close> before masking, at one index tuple;
  \<open>palpha\<close>, \<open>qalpha\<close> and \<open>delta\<close> are \<open>p.alpha\<close>, \<open>q.alpha\<close> and \<open>delta\<close> of the
  enclosing scope.
\<close>

definition c_value ::
  "env \<Rightarrow> real \<Rightarrow> real \<Rightarrow> real \<Rightarrow> int \<Rightarrow> int \<Rightarrow> int \<Rightarrow> int \<Rightarrow> real \<Rightarrow> real \<Rightarrow> real \<Rightarrow> real \<Rightarrow> real
     \<Rightarrow> int \<times> int \<times> int \<times> int \<times> int \<Rightarrow> real" where
  "c_value E palpha qalpha delta la lb lc ld pa pb qc qd qp = (\<lambda>(i1, i2, r1, r2, u).
     let h = H E la lb pa pb i1 r1 palpha * H E lc ld qc qd i2 r2 qalpha;
         index = i1 + i2 - 2 * (r1 + r2) - u;
         x = (- 1) powi (i2 + u) * factorial E (index + u) * qp powi (index - u);
         y = factorial E u * factorial E (index - u) * delta powi index
     in h * x / y)"

definition c_masked ::
  "env \<Rightarrow> real \<Rightarrow> real \<Rightarrow> real \<Rightarrow> int \<Rightarrow> int \<Rightarrow> int \<Rightarrow> int \<Rightarrow> real \<Rightarrow> real \<Rightarrow> real \<Rightarrow> real \<Rightarrow> real
     \<Rightarrow> real list" where
  "c_masked E palpha qalpha delta la lb lc ld pa pb qc qd qp =
     map (\<lambda>t. case t of (i1, i2, r1, r2, u) \<Rightarrow>
            if i1 \<le> la + lb \<and> i2 \<le> lc + ld
            then c_value E palpha qalpha delta la lb lc ld pa pb qc qd qp t else 0)
       (build_cindex (LMAX E))"

definition c_term ::
  "env \<Rightarrow> real \<Rightarrow> real \<Rightarrow> real \<Rightarrow> int \<Rightarrow> int \<Rightarrow> int \<Rightarrow> int \<Rightarrow> real \<Rightarrow> real \<Rightarrow> real \<Rightarrow> real \<Rightarrow> real
     \<Rightarrow> real list" where
  "c_term E palpha qalpha delta la lb lc ld pa pb qc qd qp =
     segment_sum (c_masked E palpha qalpha delta la lb lc ld pa pb qc qd qp)
       (map c_index (build_cindex (LMAX E))) (nat (4 * LMAX E + 1))"

definition eri_primitives ::
  "env \<Rightarrow> Primitive \<Rightarrow> Primitive \<Rightarrow> Primitive \<Rightarrow> Primitive \<Rightarrow> real" where
  "eri_primitives E a b c d =
     (let p = product E a b;
          q = product E c d;
          pa = vsub (center p) (center a);
          pb = vsub (center p) (center b);
          qc = vsub (center q) (center c);
          qd = vsub (center q) (center d);
          qp = vsub (center q) (center p);
          delta = 1 / (4 * alpha p) + 1 / (4 * alpha q);
          (Ci, Cj, Ck) = vmap_axes (\<lambda>k.
             c_term E (alpha p) (alpha q) delta
               (axis (lmn a) k) (axis (lmn b) k) (axis (lmn c) k) (axis (lmn d) k)
               (axis pa k) (axis pb k) (axis qc k) (axis qd k) (axis qp k));
          ijk = py_range (4 * LMAX E + 1);
          ids = py_range (12 * LMAX E + 1);
          F = gammanu E ids (inner3 qp qp / (4 * delta));
          W = [jnp_take Ci i * jnp_take Cj j * jnp_take Ck k * jnp_take F (i + j + k).
                 i \<leftarrow> ijk, j \<leftarrow> ijk, k \<leftarrow> ijk]
      in 2 * pi\<^sup>2 / (alpha p * alpha q) * sqrt (pi / (alpha p + alpha q))
         * norm_p p * norm_p q * sum_list W)"

subsection \<open>Basis and dense aggregation\<close>

text \<open>
  Modelled from the spec: \<open>Orbital\<close>, \<open>Structure\<close>, \<open>Basis\<close> and \<open>basis_iter\<close> belong to
  modules that are not among the sources. Following the spec's data model, an
  orbital is a list of primitives with one contraction coefficient each, a structure
  holds atomic numbers and positions, and a basis is a list of orbitals with the
  flattened arrays derived from it: the concatenated primitives, the concatenated
  coefficients, and \<open>orbital_index\<close>, which maps each flattened primitive position to
  its owning orbital. \<open>basis_iter\<close> yields the unique unordered pairs of primitive
  positions, that is the pairs \<open>(i, j)\<close> with \<open>i \<le> j\<close>, each with its coefficient
  and primitive gathered from the flattened arrays.
\<close>

record Orbital =
  primitives :: "Primitive list"
  coefficients :: "real list"

record Structure =
  atomic_number :: "int list"
  position :: "real vec3 list"

record Basis =
  orbitals :: "Orbital list"
  structure_b :: Structure

definition orbital_num_primitives :: "Orbital \<Rightarrow> nat" where
  "orbital_num_primitives ob = length (primitives ob)"

definition num_orbitals :: "Basis \<Rightarrow> nat" where
  "num_orbitals b = length (orbitals b)"

definition num_primitives :: "Basis \<Rightarrow> nat" where
  "num_primitives b = sum_list (map orbital_num_primitives (orbitals b))"

definition basis_primitives :: "Basis \<Rightarrow> Primitive list" where
  "basis_primitives b = concat (map primitives (orbitals b))"

definition basis_coefficients :: "Basis \<Rightarrow> real list" where
  "basis_coefficients b = concat (map coefficients (orbitals b))"

definition orbital_index :: "Basis \<Rightarrow> int list" where
  "orbital_index b =
     concat (map (\<lambda>(i, ob). replicate (orbital_num_primitives ob) (int i))
               (enumerate 0 (orbitals b)))"

definition basis_iter ::
  "Basis \<Rightarrow> (nat list \<times> real list \<times> Primitive list) \<times> (nat list \<times> real list \<times> Primitive list)" where
  "basis_iter b =
     (let pairs = [(i, j). i \<leftarrow> [0..<num_primitives b], j \<leftarrow> [i..<num_primitives b]];
          ii = map fst pairs;
          jj = map snd pairs;
          take_primitives = (\<lambda>indices.
             (map (\<lambda>i. basis_coefficients b ! i) indices,
              map (\<lambda>i. basis_primitives b ! i) indices));
          (cl, lhs) = take_primitives ii;
          (cr, rhs) = take_primitives jj
      in ((ii, cl, lhs), (jj, cr, rhs)))"

text \<open>
  Matrices are lists of rows. The source reads the shapes from the arrays; the model
  passes them where a list of rows cannot tell them (no rows, or no columns).
\<close>

type_synonym matrix = "real list list"

definition mat_zeros :: "nat \<Rightarrow> nat \<Rightarrow> matrix" where
  "mat_zeros r c = replicate r (replicate c 0)"

text \<open>\<open>A.at[ii, jj].set(vals)\<close>: the updates in order; one outside the matrix is dropped.\<close>

definition mat_set :: "matrix \<Rightarrow> nat \<times> nat \<Rightarrow> real \<Rightarrow> matrix" where
  "mat_set A = (\<lambda>(i, j) v. A[i := (A ! i)[j := v]])"

definition scatter_set :: "matrix \<Rightarrow> (nat \<times> nat) list \<Rightarrow> real list \<Rightarrow> matrix" where
  "scatter_set A idxs vals = fold (\<lambda>(p, v) M. mat_set M p v) (zip idxs vals) A"

text \<open>The transpose of an \<open>r \<times> c\<close> matrix.\<close>

definition mat_T :: "nat \<Rightarrow> nat \<Rightarrow> matrix \<Rightarrow> matrix" where
  "mat_T r c A = map (\<lambda>j. map (\<lambda>i. A ! i ! j) [0..<r]) [0..<c]"

definition mat_add :: "matrix \<Rightarrow> matrix \<Rightarrow> matrix" where
  "mat_add A B = map2 (map2 (+)) A B"

definition mat_sub :: "matrix \<Rightarrow> matrix \<Rightarrow> matrix" where
  "mat_sub A B = map2 (map2 (-)) A B"

text \<open>\<open>jnp.diag\<close> of a matrix is its diagonal; \<open>jnp.diag\<close> of a vector is a diagonal matrix.\<close>

definition diag_of :: "matrix \<Rightarrow> real list" where
  "diag_of A = map (\<lambda>i. A ! i ! i) [0..<length A]"

definition diag_mat :: "real list \<Rightarrow> matrix" where
  "diag_mat v = map (\<lambda>i. map (\<lambda>j. if i = j then v ! i else 0) [0..<length v]) [0..<length v]"

text \<open>
  \<open>segment_sum\<close> on a matrix with \<open>width\<close> columns sums, for each segment, the rows
  whose id is that segment.
\<close>

definition segment_sum_rows :: "matrix \<Rightarrow> int list \<Rightarrow> nat \<Rightarrow> nat \<Rightarrow> matrix" where
  "segment_sum_rows data ids num_segments width =
     map (\<lambda>s. map (\<lambda>j. sum_list (map (\<lambda>(row, k). row ! j)
                                   (filter (\<lambda>(row, k). k = int s) (zip data ids))))
                 [0..<width])
       [0..<num_segments]"

definition integrate_dense :: "Basis \<Rightarrow> (Primitive \<Rightarrow> Primitive \<Rightarrow> real) \<Rightarrow> matrix" where
  "integrate_dense b primitive_op =
     (let ((ii, cl, lhs), (jj, cr, rhs)) = basis_iter b;
          aij = map (\<lambda>(cl, cr, l, r). cl * cr * primitive_op l r) (zip cl (zip cr (zip lhs rhs)));
          A = mat_zeros (num_primitives b) (num_primitives b);
          A = scatter_set A (zip ii jj) aij;
          A = mat_sub (mat_add A (mat_T (num_primitives b) (num_primitives b) A))
                (diag_mat (diag_of A));
          index = orbital_index b;
          out = segment_sum_rows A index (num_orbitals b) (num_primitives b);
          out = segment_sum_rows (mat_T (num_orbitals b) (num_primitives b) out) index
                  (num_orbitals b) (num_orbitals b)
      in out)"

definition integrate :: "Basis \<Rightarrow> (Primitive \<Rightarrow> Primitive \<Rightarrow> real) \<Rightarrow> matrix" where
  "integrate = integrate_dense"

definition overlap_basis :: "env \<Rightarrow> Basis \<Rightarrow> matrix" where
  "overlap_basis E basis = integrate basis (overlap_primitives E)"

definition kinetic_basis :: "env \<Rightarrow> Basis \<Rightarrow> matrix" where
  "kinetic_basis E b = integrate b (kinetic_primitives E)"

text \<open>
  \<open>nuclear_basis\<close> maps \<open>n\<close> over the nuclei of the structure with \<open>vmap\<close>, which stacks
  the results along a new leading axis: one matrix per nucleus.
\<close>

definition nuclear_basis :: "env \<Rightarrow> Basis \<Rightarrow> matrix list" where
  "nuclear_basis E basis =
     (let n = (\<lambda>(atomic_number, position).
            let op = (\<lambda>pi pj. of_int atomic_number * nuclear_primitives E pi pj position)
            in integrate basis op)
      in map n (zip (atomic_number (structure_b basis)) (position (structure_b basis))))"

subsection \<open>Sparse aggregation of the electron-repulsion integrals\<close>

datatype error = ValueError

type_synonym quad = "nat \<times> nat \<times> nat \<times> nat"

definition gen_ijkl :: "nat \<Rightarrow> quad list" where
  "gen_ijkl n =
     [(idx, jdx, kdx, ldx).
        idx \<leftarrow> [0..<n],
        jdx \<leftarrow> [0..<idx + 1],
        kdx \<leftarrow> [0..<idx + 1],
        ldx \<leftarrow> [0..<(if idx = kdx then jdx else kdx) + 1]]"

text \<open>\<open>np.cumsum\<close>, and the array \<open>offset\<close> both sparse functions build from it.\<close>

fun cumsum :: "nat \<Rightarrow> nat list \<Rightarrow> nat list" where
  "cumsum acc [] = []"
| "cumsum acc (x # xs) = (acc + x) # cumsum (acc + x) xs"

definition offset_of :: "Basis \<Rightarrow> nat list" where
  "offset_of b = 0 # cumsum 0 (map orbital_num_primitives (orbitals b))"

text \<open>
  The loop over the enumerated orbital quadruples: each quadruple appends the
  Cartesian product of its four primitive ranges to \<open>indices\<close>, and its count, once
  per appended tuple, to \<open>batch\<close>.
\<close>

definition mesh_product :: "nat list \<Rightarrow> quad \<Rightarrow> quad list" where
  "mesh_product offset = (\<lambda>(i, j, k, l).
     [(a, b, c, d).
        a \<leftarrow> [offset ! i..<offset ! (i + 1)],
        b \<leftarrow> [offset ! j..<offset ! (j + 1)],
        c \<leftarrow> [offset ! k..<offset ! (k + 1)],
        d \<leftarrow> [offset ! l..<offset ! (l + 1)]])"

definition expand_step :: "nat list \<Rightarrow> nat \<times> quad \<Rightarrow> quad list \<times> int list \<Rightarrow> quad list \<times> int list" where
  "expand_step offset = (\<lambda>(count, idx) (indices, batch).
     let indices = indices @ mesh_product offset idx;
         batch = batch @ replicate (length indices - length batch) (int count)
     in (indices, batch))"

definition expand_ijkl :: "nat list \<Rightarrow> quad list \<Rightarrow> quad list \<times> int list" where
  "expand_ijkl offset ijkl = fold (expand_step offset) (enumerate 0 ijkl) ([], [])"

text \<open>
  The rest of the body shared by \<open>eri_basis_sparse\<close> and each batch of
  \<open>eri_basis_sparse_batched\<close>. With no expanded tuple at all, the transposed index
  array has no row and \<open>jnp.stack\<close> of the empty list raises \<open>ValueError\<close>. Otherwise the
  loop has run, \<open>count + 1\<close> is the number of quadruples, and the weighted kernel
  values are summed per quadruple.
\<close>

definition eris_of :: "env \<Rightarrow> Basis \<Rightarrow> quad list \<Rightarrow> real list" where
  "eris_of E b indices =
     map (\<lambda>(i, j, k, l).
            (basis_coefficients b ! i * basis_coefficients b ! j
             * basis_coefficients b ! k * basis_coefficients b ! l)
            * eri_primitives E (basis_primitives b ! i) (basis_primitives b ! j)
                (basis_primitives b ! k) (basis_primitives b ! l))
       indices"

definition eri_segments :: "env \<Rightarrow> Basis \<Rightarrow> quad list \<Rightarrow> error + real list" where
  "eri_segments E b ijkl =
     (let (indices, batch) = expand_ijkl (offset_of b) ijkl
      in if indices = [] then Inl ValueError
         else Inr (segment_sum (eris_of E b indices) batch (length ijkl)))"

definition eri_basis_sparse :: "env \<Rightarrow> Basis \<Rightarrow> error + real list" where
  "eri_basis_sparse E b = eri_segments E b (gen_ijkl (num_orbitals b))"

text \<open>
  \<open>more_itertools.batched\<close>: tuples of \<open>n\<close> items, the last one shorter when the items
  run out; \<open>ValueError\<close> when \<open>n < 1\<close>.
\<close>

function chunks :: "nat \<Rightarrow> 'a list \<Rightarrow> 'a list list" where
  "chunks n xs = (if n = 0 \<or> xs = [] then [] else take n xs # chunks n (drop n xs))"
  by pat_completeness auto
termination
  by (relation "measure (\<lambda>(n, xs). length xs)") auto

declare chunks.simps [simp del]

definition batched :: "'a list \<Rightarrow> int \<Rightarrow> error + 'a list list" where
  "batched xs n = (if n < 1 then Inl ValueError else Inr (chunks (nat n) xs))"

text \<open>
  The loop over the batches stops at the first batch that raises; \<open>jnp.hstack\<close> of no
  batch at all raises \<open>ValueError\<close>.
\<close>

fun batched_eris_of :: "env \<Rightarrow> Basis \<Rightarrow> quad list list \<Rightarrow> error + real list list" where
  "batched_eris_of E basis [] = Inr []"
| "batched_eris_of E basis (ijkl_batch # rest) =
     (case eri_segments E basis ijkl_batch of
        Inl e \<Rightarrow> Inl e
      | Inr seg \<Rightarrow> (case batched_eris_of E basis rest of
                     Inl e \<Rightarrow> Inl e
                   | Inr segs \<Rightarrow> Inr (seg # segs)))"

definition eri_basis_sparse_batched :: "env \<Rightarrow> Basis \<Rightarrow> int \<Rightarrow> error + real list" where
  "eri_basis_sparse_batched E basis batch_size =
     (case batched (gen_ijkl (num_orbitals basis)) batch_size of
        Inl e \<Rightarrow> Inl e
      | Inr batches \<Rightarrow>
          (case batched_eris_of E basis batches of
             Inl e \<Rightarrow> Inl e
           | Inr batched_eris \<Rightarrow>
               if batched_eris = [] then Inl ValueError else Inr (concat batched_eris)))"

subsection \<open>The dense four-index tensor\<close>

type_synonym tensor4 = "real list list list list"

definition zeros4 :: "nat \<Rightarrow> tensor4" where
  "zeros4 n = replicate n (replicate n (replicate n (replicate n 0)))"

definition get4 :: "tensor4 \<Rightarrow> quad \<Rightarrow> real" where
  "get4 G = (\<lambda>(i, j, k, l). G ! i ! j ! k ! l)"

definition set4 :: "tensor4 \<Rightarrow> quad \<Rightarrow> real \<Rightarrow> tensor4" where
  "set4 G = (\<lambda>(i, j, k, l) v.
     G[i := (G ! i)[j := (G ! i ! j)[k := (G ! i ! j ! k)[l := v]]]])"

definition scatter4 :: "tensor4 \<Rightarrow> quad list \<Rightarrow> real list \<Rightarrow> tensor4" where
  "scatter4 G idxs vals = fold (\<lambda>(p, v) T. set4 T p v) (zip idxs vals) G"

text \<open>
  \<open>eri_basis\<close> writes each unique value at the eight index positions the permutation
  symmetry relates. \<open>jnp.empty_like\<close> gives an array of zeros.
\<close>

definition eri_dense_of :: "nat \<Rightarrow> real list \<Rightarrow> tensor4" where
  "eri_dense_of n unique_eris =
     (let ijkl = gen_ijkl n;
          eri_dense = zeros4 n;
          eri_dense = scatter4 eri_dense (map (\<lambda>(ii, jj, kk, ll). (ii, jj, kk, ll)) ijkl) unique_eris;
          eri_dense = scatter4 eri_dense (map (\<lambda>(ii, jj, kk, ll). (ii, jj, ll, kk)) ijkl) unique_eris;
          eri_dense = scatter4 eri_dense (map (\<lambda>(ii, jj, kk, ll). (jj, ii, kk, ll)) ijkl) unique_eris;
          eri_dense = scatter4 eri_dense (map (\<lambda>(ii, jj, kk, ll). (jj, ii, ll, kk)) ijkl) unique_eris;
          eri_dense = scatter4 eri_dense (map (\<lambda>(ii, jj, kk, ll). (kk, ll, ii, jj)) ijkl) unique_eris;
          eri_dense = scatter4 eri_dense (map (\<lambda>(ii, jj, kk, ll). (kk, ll, jj, ii)) ijkl) unique_eris;
          eri_dense = scatter4 eri_dense (map (\<lambda>(ii, jj, kk, ll). (ll, kk, ii, jj)) ijkl) unique_eris;
          eri_dense = scatter4 eri_dense (map (\<lambda>(ii, jj, kk, ll). (ll, kk, jj, ii)) ijkl) unique_eris
      in eri_dense)"

definition eri_basis :: "env \<Rightarrow> Basis \<Rightarrow> error + tensor4" where
  "eri_basis E b =
     (case eri_basis_sparse_batched E b (1024 * 1024) of
        Inl e \<Rightarrow> Inl e
      | Inr unique_eris \<Rightarrow> Inr (eri_dense_of (num_orbitals b) unique_eris))"

subsection \<open>Notions used in the statements\<close>

text \<open>The eight index positions at which \<open>eri_basis\<close> writes the value of one quadruple.\<close>

definition images8 :: "quad \<Rightarrow> quad list" where
  "images8 = (\<lambda>(i, j, k, l).
     [(i, j, k, l), (i, j, l, k), (j, i, k, l), (j, i, l, k),
      (k, l, i, j), (k, l, j, i), (l, k, i, j), (l, k, j, i)])"

text \<open>
  The representative of the symmetry class of a quadruple: both pairs ordered, the
  larger pair first.
\<close>

definition canon :: "quad \<Rightarrow> quad" where
  "canon = (\<lambda>(a, b, c, d).
     let i = max a b; j = min a b; k = max c d; l = min c d
     in if k < i \<or> (k = i \<and> l \<le> j) then (i, j, k, l) else (k, l, i, j))"

text \<open>A valid index position of a tensor with \<open>n\<close> entries along each axis.\<close>

definition in_range4 :: "nat \<Rightarrow> quad \<Rightarrow> bool" where
  "in_range4 n = (\<lambda>(i, j, k, l). i < n \<and> j < n \<and> k < n \<and> l < n)"

text \<open>A tensor with \<open>n\<close> entries along each of its four axes.\<close>

definition dims4 :: "nat \<Rightarrow> tensor4 \<Rightarrow> bool" where
  "dims4 n G \<longleftrightarrow> length G = n \<and> (\<forall>i<n. length (G ! i) = n \<and> (\<forall>j<n. length (G ! i ! j) = n
     \<and> (\<forall>k<n. length (G ! i ! j ! k) = n)))"

text \<open>Every position of \<open>W\<close> holds the unique value of its class representative.\<close>

definition holds_unique :: "nat \<Rightarrow> real list \<Rightarrow> tensor4 \<Rightarrow> quad set \<Rightarrow> bool" where
  "holds_unique n u G W \<longleftrightarrow>
     dims4 n G \<and> (\<forall>q \<in> W. \<forall>m < length (gen_ijkl n). gen_ijkl n ! m = canon q \<longrightarrow> get4 G q = u ! m)"

text \<open>The value of one orbital quadruple: the sum of its weighted kernel values.\<close>

definition contract :: "env \<Rightarrow> Basis \<Rightarrow> quad \<Rightarrow> real" where
  "contract E b q = sum_list (eris_of E b (mesh_product (offset_of b) q))"

text \<open>Every orbital of the basis has at least one primitive.\<close>

definition nonempty_orbitals :: "Basis \<Rightarrow> bool" where
  "nonempty_orbitals b \<longleftrightarrow> (\<forall>ob \<in> set (orbitals b). primitives ob \<noteq> [])"

text \<open>
  Modelled from the spec: the imported names, for the closed examples. The spec gives
  \<open>factorial\<close>, the double factorial (\<open>1\<close> for \<open>n \<le> 0\<close>), the binomial coefficient
  (\<open>0\<close> when \<open>k > n\<close> or \<open>k < 0\<close>), \<open>binom_factor\<close> as the vector of the
  coefficients of the powers \<open>0..max_k\<close> in the expansion of the product of two
  shifted monomials, \<open>gammanu\<close> as the integrals \<open>F\<^sub>n(x)\<close> of \<open>t\<^bsup>2n\<^esup> exp (- x t\<^sup>2)\<close>
  over \<open>[0, 1]\<close>, written here as their power series in \<open>x\<close>, and the Gaussian
  product rule (exponent-weighted center, summed exponent, prefactor from the
  exponents and the squared distance of the centers). \<open>LMAX\<close> is \<open>4\<close>, the largest
  angular momentum in \<open>binom_factor_table.py\<close>. An argument of the double factorial
  that went below zero in \<open>uint32\<close> arrives wrapped, and counts as negative.
\<close>

fun fact2 :: "nat \<Rightarrow> nat" where
  "fact2 0 = 1"
| "fact2 (Suc 0) = 1"
| "fact2 (Suc (Suc n)) = Suc (Suc n) * fact2 n"

definition spec_binom :: "int \<Rightarrow> int \<Rightarrow> real" where
  "spec_binom n k = (if k < 0 \<or> n < k then 0 else real (nat n choose nat k))"

definition spec_binom_factor :: "int \<Rightarrow> int \<Rightarrow> real \<Rightarrow> real \<Rightarrow> int option \<Rightarrow> real list" where
  "spec_binom_factor l1 l2 pa pb max_k =
     map (\<lambda>k. sum_list (map (\<lambda>t. spec_binom l1 (k - t) * spec_binom l2 t
                                  * pa powi (l1 - (k - t)) * pb powi (l2 - t))
                          (py_range (k + 1))))
       (py_range ((case max_k of None \<Rightarrow> 4 | Some m \<Rightarrow> m) + 1))"

definition spec_gammanu :: "int list \<Rightarrow> real \<Rightarrow> real list" where
  "spec_gammanu ids x =
     map (\<lambda>n. (\<Sum>k. (- x) ^ k / (fact k * real (2 * nat n + 2 * k + 1)))) ids"

definition spec_product :: "Primitive \<Rightarrow> Primitive \<Rightarrow> Primitive" where
  "spec_product a b =
     (let palpha = alpha a + alpha b;
          Rab = vsub (center a) (center b)
      in \<lparr>center = vmap_axes (\<lambda>k. (alpha a * axis (center a) k + alpha b * axis (center b) k) / palpha),
          alpha = palpha,
          lmn = vmap_axes (\<lambda>k. axis (lmn a) k + axis (lmn b) k),
          norm_p = norm_p a * norm_p b * exp (- alpha a * alpha b / palpha * inner3 Rab Rab)\<rparr>)"

definition spec_env :: env where
  "spec_env = \<lparr>LMAX = 4,
                factorial = (\<lambda>n. fact (nat n)),
                factorial2 = (\<lambda>n. if 2 ^ 31 \<le> n then 1 else real (fact2 (nat n))),
                binom = spec_binom,
                binom_factor = spec_binom_factor,
                gammanu = spec_gammanu,
                product = spec_product\<rparr>"

text \<open>Example inputs: an s-type primitive at the origin, and bases built from it.\<close>

definition s_primitive :: Primitive where
  "s_primitive = \<lparr>center = (0, 0, 0), alpha = 1, lmn = (0, 0, 0), norm_p = 1\<rparr>"

definition s_orbital :: Orbital where
  "s_orbital = \<lparr>primitives = [s_primitive], coefficients = [1]\<rparr>"


definition hydrogen :: Structure where
  "hydrogen = \<lparr>atomic_number = [1], position = [(0, 0, 0)]\<rparr>"


definition basis_two_orbitals :: Basis where
  "basis_two_orbitals = \<lparr>orbitals = [s_orbital, s_orbital], structure_b = hydrogen\<rparr>"

text \<open>A matrix with \<open>r\<close> rows of \<open>c\<close> entries.\<close>

definition dims2 :: "nat \<Rightarrow> nat \<Rightarrow> matrix \<Rightarrow> bool" where
  "dims2 r c A \<longleftrightarrow> length A = r \<and> (\<forall>i<r. length (A ! i) = c)"

text \<open>
  The weighted kernel value of the unordered pair of primitive positions \<open>p\<close>, \<open>q\<close>:
  the kernel is applied to the smaller position first.
\<close>

definition pair_value :: "Basis \<Rightarrow> (Primitive \<Rightarrow> Primitive \<Rightarrow> real) \<Rightarrow> nat \<Rightarrow> nat \<Rightarrow> real" where
  "pair_value b primitive_op p q =
     basis_coefficients b ! min p q * basis_coefficients b ! max p q
     * primitive_op (basis_primitives b ! min p q) (basis_primitives b ! max p q)"

text \<open>The primitive positions whose owning orbital is \<open>s\<close>.\<close>

definition owned_by :: "Basis \<Rightarrow> nat \<Rightarrow> nat list" where
  "owned_by b s = filter (\<lambda>p. orbital_index b ! p = int s) [0..<num_primitives b]"

text \<open>The pairs of positions \<open>basis_iter\<close> yields.\<close>

definition upper_pairs :: "nat \<Rightarrow> (nat \<times> nat) list" where
  "upper_pairs P = [(i, j). i \<leftarrow> [0..<P], j \<leftarrow> [i..<P]]"

text \<open>The matrix \<open>A\<close> of \<open>integrate_dense\<close> after the scatter.\<close>

definition scattered :: "Basis \<Rightarrow> (Primitive \<Rightarrow> Primitive \<Rightarrow> real) \<Rightarrow> matrix" where
  "scattered b primitive_op =
     scatter_set (mat_zeros (num_primitives b) (num_primitives b))
       (upper_pairs (num_primitives b))
       (map (\<lambda>(i, j). basis_coefficients b ! i * basis_coefficients b ! j
                * primitive_op (basis_primitives b ! i) (basis_primitives b ! j))
          (upper_pairs (num_primitives b)))"

text \<open>The matrix \<open>A + A.T - diag(diag(A))\<close> of \<open>integrate_dense\<close>.\<close>

definition completed :: "Basis \<Rightarrow> (Primitive \<Rightarrow> Primitive \<Rightarrow> real) \<Rightarrow> matrix" where
  "completed b primitive_op =
     mat_sub (mat_add (scattered b primitive_op)
                (mat_T (num_primitives b) (num_primitives b) (scattered b primitive_op)))
       (diag_mat (diag_of (scattered b primitive_op)))"

text \<open>
  The contribution of one nucleus to the nuclear-attraction matrix, in the spec's
  words: the orbital-aggregated primitive kernel weighted by the atomic number.
\<close>

definition nuclear_contribution :: "env \<Rightarrow> Basis \<Rightarrow> int \<times> real vec3 \<Rightarrow> matrix" where
  "nuclear_contribution E basis = (\<lambda>(Z, c).
     integrate_dense basis (\<lambda>pi pj. of_int Z * nuclear_primitives E pi pj c))"

text \<open>The single matrix the spec describes: the sum of the contributions of all nuclei.\<close>

definition nuclear_sum :: "env \<Rightarrow> Basis \<Rightarrow> matrix" where
  "nuclear_sum E basis =
     foldl mat_add (mat_zeros (num_orbitals basis) (num_orbitals basis))
       (map (nuclear_contribution E basis)
          (zip (atomic_number (structure_b basis)) (position (structure_b basis))))"

text \<open>
  \<open>V.T\<close> of a stack of \<open>m\<close> matrices of shape \<open>n \<times> n\<close>: all three axes are reversed,
  which gives the shape \<open>n \<times> n \<times> m\<close>.
\<close>

definition stack_T :: "nat \<Rightarrow> nat \<Rightarrow> matrix list \<Rightarrow> matrix list" where
  "stack_T m n V = map (\<lambda>i. map (\<lambda>j. map (\<lambda>a. V ! a ! j ! i) [0..<m]) [0..<n]) [0..<n]"

text \<open>Example inputs: two nuclei, and a basis of one orbital over them.\<close>

definition two_nuclei :: Structure where
  "two_nuclei = \<lparr>atomic_number = [1, 8], position = [(0, 0, 0), (0, 0, 2)]\<rparr>"

definition basis_two_nuclei :: Basis where
  "basis_two_nuclei = \<lparr>orbitals = [s_orbital], structure_b = two_nuclei\<rparr>"

text \<open>
  The form the source's comment reads in the paper (THO Eq. 3.5): the same quotient
  with \<open>(4 gamma)\<^bsup>i - 2r\<^esup>\<close> in the denominator.
\<close>

definition H_tho :: "env \<Rightarrow> int \<Rightarrow> int \<Rightarrow> real \<Rightarrow> real \<Rightarrow> int \<Rightarrow> int \<Rightarrow> real \<Rightarrow> real" where
  "H_tho E l1 l2 a b i r gamma =
     factorial E i * jnp_take (binom_factor E l1 l2 a b (Some (2 * LMAX E))) i
     / (factorial E r * factorial E (i - 2 * r) * (4 * gamma) powi (i - 2 * r))"

section \<open>Properties\<close>

subsection \<open>Index tables\<close>

lemma set_py_range: "set (py_range k) = {j. 0 \<le> j \<and> j < k}"
proof -
  have "\<And>j. 0 \<le> j \<Longrightarrow> j < k \<Longrightarrow> j \<in> int ` {0..<nat k}"
  proof -
    fix j :: int
    assume "0 \<le> j" "j < k"
    then have "nat j \<in> {0..<nat k}" "j = int (nat j)" by auto
    then show "j \<in> int ` {0..<nat k}" by (rule_tac x = "nat j" in image_eqI)
  qed
  then show ?thesis
    by (auto simp: py_range_def)
qed

lemma gindex_bounds:
  assumes "(i, r, u) \<in> set (build_gindex L)"
  shows "0 \<le> i - 2 * r - u" and "i - 2 * r - u \<le> L"
proof -
  from assms have h: "0 \<le> i" "i < L + 1" "0 \<le> r" "r < i div 2 + 1"
      "0 \<le> u" "u < (i - 2 * r) div 2 + 1"
    by (auto simp: build_gindex_def set_py_range)
  have d: "2 * ((i - 2 * r) div 2) \<le> i - 2 * r"
    by presburger
  from h d show "0 \<le> i - 2 * r - u" by linarith
  from h d show "i - 2 * r - u \<le> L" by linarith
qed

lemma cindex_bounds:
  assumes "(i1, i2, r1, r2, u) \<in> set (build_cindex L)"
  shows "0 \<le> i1 + i2 - 2 * (r1 + r2) - u" and "i1 + i2 - 2 * (r1 + r2) - u \<le> 4 * L"
proof -
  define a b d where "a = i1 div 2" and "b = i2 div 2" and "d = (i1 + i2) div 2"
  from assms have h: "0 \<le> i1" "i1 < 2 * L + 1" "0 \<le> i2" "i2 < 2 * L + 1"
      "0 \<le> r1" "r1 < a + 1" "0 \<le> r2" "r2 < b + 1"
      "0 \<le> u" "u < d - r1 - r2 + 1"
    by (auto simp: build_cindex_def set_py_range a_def b_def d_def)
  have e: "2 * d \<le> i1 + i2" "a + b \<le> d"
    unfolding a_def b_def d_def by presburger+
  have f: "i1 + i2 - 2 * (r1 + r2) - u = i1 + i2 - 2 * r1 - 2 * r2 - u"
    by simp
  from h e show "0 \<le> i1 + i2 - 2 * (r1 + r2) - u" unfolding f by linarith
  from h e show "i1 + i2 - 2 * (r1 + r2) - u \<le> 4 * L" unfolding f by linarith
qed

lemma sum_list_indicator:
  "sum_list (map (\<lambda>s. if k = int s then d else (0::real)) [0..<n]) = (if 0 \<le> k \<and> k < int n then d else 0)"
  by (induction n) auto

lemma sum_list_segment_sum:
  assumes "length data = length ids" and "\<forall>k \<in> set ids. 0 \<le> k \<and> k < int n"
  shows "sum_list (segment_sum data ids n) = sum_list data"
  using assms
proof (induction data ids rule: list_induct2)
  case Nil
  then show ?case by (simp add: segment_sum_def)
next
  case (Cons d ds k ks)
  have "sum_list (segment_sum (d # ds) (k # ks) n)
        = sum_list (map (\<lambda>s. (if k = int s then d else 0)
             + sum_list (map fst (filter (\<lambda>(d, k). k = int s) (zip ds ks)))) [0..<n])"
    unfolding segment_sum_def by (intro arg_cong[where f = sum_list] map_cong) auto
  also have "\<dots> = sum_list (map (\<lambda>s. if k = int s then d else 0) [0..<n])
                  + sum_list (segment_sum ds ks n)"
    unfolding segment_sum_def by (simp add: sum_list_addf)
  also have "\<dots> = d + sum_list ds"
    using Cons by (simp add: sum_list_indicator)
  finally show ?case by simp
qed

lemma mem_build_gindex:
  "(i, r, u) \<in> set (build_gindex L) \<longleftrightarrow>
     0 \<le> i \<and> i < L + 1 \<and> 0 \<le> r \<and> r < i div 2 + 1 \<and> 0 \<le> u \<and> u < (i - 2 * r) div 2 + 1"
  unfolding build_gindex_def by (simp add: set_py_range image_iff)

lemma mem_build_cindex:
  "(i1, i2, r1, r2, u) \<in> set (build_cindex L) \<longleftrightarrow>
     0 \<le> i1 \<and> i1 < 2 * L + 1 \<and> 0 \<le> i2 \<and> i2 < 2 * L + 1
     \<and> 0 \<le> r1 \<and> r1 < i1 div 2 + 1 \<and> 0 \<le> r2 \<and> r2 < i2 div 2 + 1
     \<and> 0 \<le> u \<and> u < (i1 + i2) div 2 - r1 - r2 + 1"
  unfolding build_cindex_def by (simp add: set_py_range image_iff)

text \<open>
  Claim C10. Every index tuple enumerated by \<open>build_gindex\<close> has
  \<open>0 \<le> i - 2r - u \<le> LMAX\<close>, and every tuple enumerated by \<open>build_cindex\<close> has
  \<open>0 \<le> i1 + i2 - 2(r1 + r2) - u \<le> 4 LMAX\<close>. These are the segment ids of the
  \<open>segment_sum\<close> in \<open>g_term\<close> (with \<open>LMAX + 1\<close> segments) and in \<open>c_term\<close> (with
  \<open>4 LMAX + 1\<close> segments), so no term is dropped: the segments of \<open>g_term\<close> and of
  \<open>c_term\<close> add up to the sum of all their masked terms.
\<close>

theorem segment_ids_in_range:
  "(\<forall>t \<in> set (build_gindex L). 0 \<le> g_index t \<and> g_index t \<le> L)
   \<and> (\<forall>t \<in> set (build_cindex L). 0 \<le> c_index t \<and> c_index t \<le> 4 * L)
   \<and> sum_list (g_term E epsilon l1 l2 pa pb cp) = sum_list (g_masked E epsilon l1 l2 pa pb cp)
   \<and> sum_list (c_term E palpha qalpha delta la lb lc ld pa pb qc qd qp)
       = sum_list (c_masked E palpha qalpha delta la lb lc ld pa pb qc qd qp)"
proof (intro conjI)
  show g: "\<forall>t \<in> set (build_gindex L). 0 \<le> g_index t \<and> g_index t \<le> L" for L
    using gindex_bounds by (auto simp: g_index_def)
  show c: "\<forall>t \<in> set (build_cindex L). 0 \<le> c_index t \<and> c_index t \<le> 4 * L" for L
    using cindex_bounds by (auto simp: c_index_def)
  show "sum_list (g_term E epsilon l1 l2 pa pb cp) = sum_list (g_masked E epsilon l1 l2 pa pb cp)"
    unfolding g_term_def
    by (rule sum_list_segment_sum) (use g[of "LMAX E"] in \<open>auto simp: g_masked_def\<close>)
  show "sum_list (c_term E palpha qalpha delta la lb lc ld pa pb qc qd qp)
       = sum_list (c_masked E palpha qalpha delta la lb lc ld pa pb qc qd qp)"
    unfolding c_term_def
    by (rule sum_list_segment_sum) (use c[of "LMAX E"] in \<open>auto simp: c_masked_def\<close>)
qed

theorem segment_ids_in_range_witness:
  "(4, 1, 1) \<in> set (build_gindex 4) \<and> 0 \<le> g_index (4, 1, 1) \<and> g_index (4, 1, 1) \<le> 4
   \<and> (8, 8, 0, 0, 0) \<in> set (build_cindex 4) \<and> 0 \<le> c_index (8, 8, 0, 0, 0)
   \<and> c_index (8, 8, 0, 0, 0) \<le> 4 * 4"
proof -
  have g: "(4, 1, 1) \<in> set (build_gindex 4)"
    by (simp add: mem_build_gindex)
  have c: "(8, 8, 0, 0, 0) \<in> set (build_cindex 4)"
    by (simp add: mem_build_cindex)
  from segment_ids_in_range[of 4] g c show ?thesis
    by blast
qed

subsection \<open>The quadruples of \<open>gen_ijkl\<close>\<close>




lemma mem_gen_ijkl:
  "(i, j, k, l) \<in> set (gen_ijkl n) \<longleftrightarrow>
     i < n \<and> j \<le> i \<and> k \<le> i \<and> l \<le> (if i = k then j else k)"
proof -
  have *: "\<And>m x. x \<in> set [0..<m + 1] \<longleftrightarrow> x \<le> m"
    by auto
  show ?thesis
    unfolding gen_ijkl_def set_concat set_map image_image
    by (simp only: UN_iff * set_upt atLeastLessThan_iff image_iff Bex_def prod.inject) auto
qed

lemma distinct_concat_map:
  assumes "distinct xs"
    and "\<And>x. x \<in> set xs \<Longrightarrow> distinct (f x)"
    and "\<And>x y. x \<in> set xs \<Longrightarrow> y \<in> set xs \<Longrightarrow> x \<noteq> y \<Longrightarrow> set (f x) \<inter> set (f y) = {}"
  shows "distinct (concat (map f xs))"
  using assms
proof (induction xs)
  case Nil
  then show ?case by simp
next
  case (Cons x xs)
  have "set (f x) \<inter> set (f y) = {}" if "y \<in> set xs" for y
    using Cons.prems(1) Cons.prems(3)[of x y] that by auto
  moreover have "distinct (concat (map f xs))"
    using Cons by simp
  ultimately show ?case
    using Cons.prems(2)[of x] by auto
qed

lemma distinct_gen_ijkl: "distinct (gen_ijkl n)"
  unfolding gen_ijkl_def
  by (intro distinct_concat_map distinct_upt) (auto simp: distinct_map inj_on_def)

lemma canon_in_gen_ijkl:
  assumes "a < n" "b < n" "c < n" "d < n"
  shows "canon (a, b, c, d) \<in> set (gen_ijkl n)"
  using assms by (auto simp: canon_def Let_def mem_gen_ijkl max_def min_def)

lemma mem_images8_canon: "q \<in> set (images8 (canon q))"
  by (cases q) (auto simp: canon_def images8_def Let_def max_def min_def)

lemma canon_images8:
  assumes "q \<in> set (images8 p)"
  shows "canon q = canon p"
  using assms by (cases p) (auto simp: canon_def images8_def Let_def max_def min_def)

lemma canon_gen_ijkl:
  assumes "p \<in> set (gen_ijkl n)"
  shows "canon p = p"
proof -
  obtain i j k l where p: "p = (i, j, k, l)"
    by (cases p) auto
  with assms have "i < n \<and> j \<le> i \<and> k \<le> i \<and> l \<le> (if i = k then j else k)"
    by (simp add: mem_gen_ijkl)
  then show ?thesis
    unfolding p by (auto simp: canon_def Let_def max_def min_def split: if_splits)
qed

lemma gen_ijkl_in_range:
  assumes "(i, j, k, l) \<in> set (gen_ijkl n)"
  shows "i < n \<and> j < n \<and> k < n \<and> l < n"
  using assms by (auto simp: mem_gen_ijkl split: if_splits)


lemma sum_list_succ_upt: "2 * sum_list (map (\<lambda>k. k + 1) [0..<i]) = i * (i + 1)"
  by (induction i) auto

lemma length_gen_inner:
  "sum_list (map (\<lambda>k. length (map (\<lambda>l. (i, j, k, l)) [0..<(if i = k then j else k) + 1])) [0..<i + 1])
     = sum_list (map (\<lambda>k. k + 1) [0..<i]) + (j + 1)"
proof -
  have "sum_list (map (\<lambda>k. Suc (if i = k then j else k)) [0..<i]) = sum_list (map Suc [0..<i])"
    by (rule arg_cong[where f = sum_list], rule map_cong) auto
  then show ?thesis by simp
qed

lemma sum_list_const_add_upt:
  "sum_list (map (\<lambda>j. S + f j) [0..<n]) = n * S + sum_list (map f [0..<n])" for S :: nat
  by (induction n) (auto simp: algebra_simps)

lemma length_gen_block:
  "2 * length (concat (map (\<lambda>j. concat (map (\<lambda>k. map (\<lambda>l. (i, j, k, l))
        [0..<(if i = k then j else k) + 1]) [0..<i + 1])) [0..<i + 1]))
     = (i + 1) * (i * i + 2 * i + 2)"
proof -
  define S where "S = sum_list (map (\<lambda>k. k + 1) [0..<i])"
  have S: "2 * S = i * (i + 1)"
    unfolding S_def by (rule sum_list_succ_upt)
  have "length (concat (map (\<lambda>j. concat (map (\<lambda>k. map (\<lambda>l. (i, j, k, l))
        [0..<(if i = k then j else k) + 1]) [0..<i + 1])) [0..<i + 1]))
        = sum_list (map (\<lambda>j. S + (j + 1)) [0..<i + 1])"
    unfolding S_def length_concat map_map comp_def length_gen_inner[symmetric] ..
  also have "\<dots> = (i + 1) * S + sum_list (map (\<lambda>j. j + 1) [0..<i + 1])"
    by (rule sum_list_const_add_upt)
  finally have "2 * length (concat (map (\<lambda>j. concat (map (\<lambda>k. map (\<lambda>l. (i, j, k, l))
        [0..<(if i = k then j else k) + 1]) [0..<i + 1])) [0..<i + 1]))
        = (i + 1) * (2 * S) + 2 * sum_list (map (\<lambda>j. j + 1) [0..<i + 1])"
    by (simp add: algebra_simps)
  also have "\<dots> = (i + 1) * (i * (i + 1)) + (i + 1) * (i + 2)"
    unfolding S sum_list_succ_upt by simp
  also have "\<dots> = (i + 1) * (i * i + 2 * i + 2)"
    by (simp add: algebra_simps)
  finally show ?thesis .
qed

lemma length_gen_ijkl8: "8 * length (gen_ijkl n) = n * (n + 1) * (n * (n + 1) + 2)"
proof (induction n)
  case 0
  then show ?case by (simp add: gen_ijkl_def)
next
  case (Suc n)
  have "gen_ijkl (Suc n) = gen_ijkl n @ concat (map (\<lambda>j. concat (map (\<lambda>k. map (\<lambda>l. (n, j, k, l))
        [0..<(if n = k then j else k) + 1]) [0..<n + 1])) [0..<n + 1])"
    unfolding gen_ijkl_def by simp
  then have "8 * length (gen_ijkl (Suc n))
      = 8 * length (gen_ijkl n) + 4 * ((n + 1) * (n * n + 2 * n + 2))"
    using length_gen_block[of n] by simp
  also have "\<dots> = n * (n + 1) * (n * (n + 1) + 2) + 4 * ((n + 1) * (n * n + 2 * n + 2))"
    using Suc by simp
  also have "\<dots> = Suc n * (Suc n + 1) * (Suc n * (Suc n + 1) + 2)"
    by (simp add: algebra_simps)
  finally show ?case .
qed

lemma length_gen_ijkl:
  "length (gen_ijkl n) = (n * (n + 1) div 2) * (n * (n + 1) div 2 + 1) div 2"
proof -
  define M where "M = n * (n + 1) div 2"
  have M: "2 * M = n * (n + 1)"
    unfolding M_def by simp
  have "8 * length (gen_ijkl n) = (2 * M) * (2 * M + 2)"
    unfolding M by (rule length_gen_ijkl8)
  then have "2 * length (gen_ijkl n) = M * (M + 1)"
    by (simp add: algebra_simps)
  then show ?thesis
    unfolding M_def[symmetric] by simp
qed

subsection \<open>Writing the dense tensor\<close>



lemma nth_list_update_if:
  "xs[i := x] ! j = (if i = j \<and> i < length xs then x else xs ! j)"
  by (cases "i < length xs") (auto simp: nth_list_update list_update_beyond)

lemma dims4_zeros4: "dims4 n (zeros4 n)"
  by (simp add: dims4_def zeros4_def)

lemma get4_zeros4: "in_range4 n q \<Longrightarrow> get4 (zeros4 n) q = 0"
  by (cases q) (simp add: get4_def zeros4_def in_range4_def)

lemma dims4_set4:
  assumes "dims4 n G"
  shows "dims4 n (set4 G p v)"
proof -
  obtain i j k l where p: "p = (i, j, k, l)" by (cases p) auto
  show ?thesis
    using assms unfolding p set4_def dims4_def
    by (auto simp: nth_list_update_if)
qed

lemma get4_set4:
  assumes "dims4 n G" and "in_range4 n p"
  shows "get4 (set4 G p v) q = (if q = p then v else get4 G q)"
proof -
  obtain i j k l where p: "p = (i, j, k, l)" by (cases p) auto
  obtain i' j' k' l' where q: "q = (i', j', k', l')" by (cases q) auto
  show ?thesis
    using assms unfolding p q set4_def get4_def dims4_def in_range4_def
    by (auto simp: nth_list_update_if)
qed

lemma scatter4_Cons:
  "scatter4 G (p # idxs) (v # vals) = scatter4 (set4 G p v) idxs vals"
  by (simp add: scatter4_def)

lemma scatter4_get:
  assumes "dims4 n G" and "\<forall>p \<in> set idxs. in_range4 n p" and "distinct idxs"
    and "length vals = length idxs"
  shows "dims4 n (scatter4 G idxs vals)
     \<and> get4 (scatter4 G idxs vals) q
         = (case map_of (zip idxs vals) q of None \<Rightarrow> get4 G q | Some v \<Rightarrow> v)"
  using assms(4,1,2,3)
proof (induction vals idxs arbitrary: G rule: list_induct2)
  case Nil
  then show ?case by (simp add: scatter4_def)
next
  case (Cons v vals p idxs)
  have d: "dims4 n (set4 G p v)"
    using Cons.prems(1) by (rule dims4_set4)
  have ih: "dims4 n (scatter4 (set4 G p v) idxs vals)
     \<and> get4 (scatter4 (set4 G p v) idxs vals) q
         = (case map_of (zip idxs vals) q of None \<Rightarrow> get4 (set4 G p v) q | Some v \<Rightarrow> v)"
    using Cons.IH[OF d] Cons.prems by simp
  have none: "map_of (zip idxs vals) p = None"
    using Cons.prems(3) Cons.hyps by (simp add: map_of_zip_is_None)
  have g: "get4 (set4 G p v) q = (if q = p then v else get4 G q)"
    using Cons.prems by (intro get4_set4[of n]) auto
  show ?case
    unfolding scatter4_Cons using ih none g by (auto split: option.splits)
qed


lemma scatter4_image:
  assumes "dims4 n G" and "distinct qs" and "\<forall>p \<in> set qs. in_range4 n (f p)"
    and "inj_on f (set qs)" and "length u = length qs"
  shows "dims4 n (scatter4 G (map f qs) u)"
    and "\<And>m. m < length qs \<Longrightarrow> get4 (scatter4 G (map f qs) u) (f (qs ! m)) = u ! m"
    and "\<And>q. q \<notin> f ` set qs \<Longrightarrow> get4 (scatter4 G (map f qs) u) q = get4 G q"
proof -
  have d: "distinct (map f qs)"
    using assms(2,4) by (simp add: distinct_map)
  have r: "\<forall>p \<in> set (map f qs). in_range4 n p"
    using assms(3) by simp
  have l: "length u = length (map f qs)"
    using assms(5) by simp
  note sg = scatter4_get[OF assms(1) r d l]
  show "dims4 n (scatter4 G (map f qs) u)"
    using sg by simp
  show "get4 (scatter4 G (map f qs) u) (f (qs ! m)) = u ! m" if "m < length qs" for m
  proof -
    have "map_of (zip (map f qs) u) (map f qs ! m) = Some (u ! m)"
      using that d l by (intro map_of_zip_nth) auto
    then show ?thesis
      using sg[of "f (qs ! m)"] that by simp
  qed
  show "get4 (scatter4 G (map f qs) u) q = get4 G q" if "q \<notin> f ` set qs" for q
  proof -
    have "map_of (zip (map f qs) u) q = None"
      using that l by (simp add: map_of_zip_is_None)
    then show ?thesis
      using sg[of q] by simp
  qed
qed


lemma holds_unique_step:
  assumes h: "holds_unique n u G W" and len: "length u = length (gen_ijkl n)"
    and img: "\<And>p. f p \<in> set (images8 p)" and inj: "inj f"
  shows "holds_unique n u (scatter4 G (map f (gen_ijkl n)) u) (W \<union> f ` set (gen_ijkl n))"
proof -
  let ?qs = "gen_ijkl n"
  have rng: "\<forall>p \<in> set ?qs. in_range4 n (f p)"
  proof
    fix p assume p: "p \<in> set ?qs"
    obtain i j k l where pe: "p = (i, j, k, l)" by (cases p) auto
    have "in_range4 n p"
      using p gen_ijkl_in_range[of i j k l n] unfolding pe by (simp add: in_range4_def)
    moreover have "f p \<in> set (images8 p)" by (rule img)
    ultimately show "in_range4 n (f p)"
      unfolding pe by (auto simp: images8_def in_range4_def)
  qed
  have inj': "inj_on f (set ?qs)"
    using inj by (rule inj_on_subset) simp
  note sc = scatter4_image[OF _ distinct_gen_ijkl rng inj' len]
  have d: "dims4 n G" using h by (simp add: holds_unique_def)
  have "get4 (scatter4 G (map f ?qs) u) q = u ! m"
    if q: "q \<in> W \<union> f ` set ?qs" and m: "m < length ?qs" "?qs ! m = canon q" for q m
  proof (cases "q \<in> f ` set ?qs")
    case True
    then obtain m' where m': "m' < length ?qs" "q = f (?qs ! m')"
      by (auto simp: in_set_conv_nth)
    have "canon q = canon (?qs ! m')"
      unfolding m'(2) by (rule canon_images8) (rule img)
    also have "\<dots> = ?qs ! m'"
      using m'(1) by (intro canon_gen_ijkl[of _ n]) simp
    finally have "?qs ! m = ?qs ! m'"
      using m(2) by simp
    then have "m = m'"
      using distinct_gen_ijkl[of n] m(1) m'(1) by (simp add: nth_eq_iff_index_eq)
    then show ?thesis
      using sc(2)[OF d m'(1)] m'(2) by simp
  next
    case False
    then have "q \<in> W" using q by simp
    then have "get4 G q = u ! m"
      using h m by (simp add: holds_unique_def)
    then show ?thesis
      using sc(3)[OF d False] by simp
  qed
  then show ?thesis
    using sc(1)[OF d] by (simp add: holds_unique_def)
qed

lemma eri_dense_of_entry:
  assumes len: "length u = length (gen_ijkl n)" and q: "in_range4 n q"
    and m: "m < length (gen_ijkl n)" "gen_ijkl n ! m = canon q"
  shows "get4 (eri_dense_of n u) q = u ! m"
proof -
  let ?qs = "gen_ijkl n"
  have inj: "inj (\<lambda>(ii, jj, kk, ll). (ii, jj, kk, ll))" "inj (\<lambda>(ii, jj, kk, ll). (ii, jj, ll, kk))"
    "inj (\<lambda>(ii, jj, kk, ll). (jj, ii, kk, ll))" "inj (\<lambda>(ii, jj, kk, ll). (jj, ii, ll, kk))"
    "inj (\<lambda>(ii, jj, kk, ll). (kk, ll, ii, jj))" "inj (\<lambda>(ii, jj, kk, ll). (kk, ll, jj, ii))"
    "inj (\<lambda>(ii, jj, kk, ll). (ll, kk, ii, jj))" "inj (\<lambda>(ii, jj, kk, ll). (ll, kk, jj, ii))"
    by (auto simp: inj_on_def)
  have h0: "holds_unique n u (zeros4 n) {}"
    by (simp add: holds_unique_def dims4_zeros4)
  note h1 = holds_unique_step[OF h0 len _ inj(1)]
  note h2 = holds_unique_step[OF h1 len _ inj(2)]
  note h3 = holds_unique_step[OF h2 len _ inj(3)]
  note h4 = holds_unique_step[OF h3 len _ inj(4)]
  note h5 = holds_unique_step[OF h4 len _ inj(5)]
  note h6 = holds_unique_step[OF h5 len _ inj(6)]
  note h7 = holds_unique_step[OF h6 len _ inj(7)]
  note h8 = holds_unique_step[OF h7 len _ inj(8)]
  have H: "holds_unique n u (eri_dense_of n u)
     ({} \<union> (\<lambda>(ii, jj, kk, ll). (ii, jj, kk, ll)) ` set ?qs
         \<union> (\<lambda>(ii, jj, kk, ll). (ii, jj, ll, kk)) ` set ?qs
         \<union> (\<lambda>(ii, jj, kk, ll). (jj, ii, kk, ll)) ` set ?qs
         \<union> (\<lambda>(ii, jj, kk, ll). (jj, ii, ll, kk)) ` set ?qs
         \<union> (\<lambda>(ii, jj, kk, ll). (kk, ll, ii, jj)) ` set ?qs
         \<union> (\<lambda>(ii, jj, kk, ll). (kk, ll, jj, ii)) ` set ?qs
         \<union> (\<lambda>(ii, jj, kk, ll). (ll, kk, ii, jj)) ` set ?qs
         \<union> (\<lambda>(ii, jj, kk, ll). (ll, kk, jj, ii)) ` set ?qs)"
    unfolding eri_dense_of_def Let_def
    by (rule h8) (auto simp: images8_def)
  have c: "canon q \<in> set ?qs"
    using m by (metis nth_mem)
  obtain i j k l where ce: "canon q = (i, j, k, l)" by (cases "canon q") auto
  have "q \<in> set (images8 (canon q))" by (rule mem_images8_canon)
  then have "q \<in> {} \<union> (\<lambda>(ii, jj, kk, ll). (ii, jj, kk, ll)) ` set ?qs
         \<union> (\<lambda>(ii, jj, kk, ll). (ii, jj, ll, kk)) ` set ?qs
         \<union> (\<lambda>(ii, jj, kk, ll). (jj, ii, kk, ll)) ` set ?qs
         \<union> (\<lambda>(ii, jj, kk, ll). (jj, ii, ll, kk)) ` set ?qs
         \<union> (\<lambda>(ii, jj, kk, ll). (kk, ll, ii, jj)) ` set ?qs
         \<union> (\<lambda>(ii, jj, kk, ll). (kk, ll, jj, ii)) ` set ?qs
         \<union> (\<lambda>(ii, jj, kk, ll). (ll, kk, ii, jj)) ` set ?qs
         \<union> (\<lambda>(ii, jj, kk, ll). (ll, kk, jj, ii)) ` set ?qs"
    using c unfolding ce images8_def by (auto simp: image_iff intro!: bexI[of _ "(i, j, k, l)"])
  then show ?thesis
    using H m unfolding holds_unique_def by blast
qed

text \<open>
  Claim C9. The quadruples \<open>gen_ijkl n\<close> yields are pairwise distinct and valid index
  positions; every valid position \<open>q\<close> of the tensor is one of the eight symmetry
  images of exactly one yielded quadruple, so the yielded quadruples are one
  representative for each class of the 8-fold permutation symmetry; there are
  \<open>M (M + 1) / 2\<close> of them with \<open>M = n (n + 1) / 2\<close>; and the dense tensor
  \<open>eri_basis\<close> builds from one value per yielded quadruple holds, at every valid
  position, the value of a yielded quadruple that has the position among its images,
  so every entry is written.
\<close>

theorem gen_ijkl_canonical:
  "distinct (gen_ijkl n)
   \<and> (\<forall>p \<in> set (gen_ijkl n). in_range4 n p)
   \<and> (\<forall>q. in_range4 n q \<longrightarrow> (\<exists>!p. p \<in> set (gen_ijkl n) \<and> q \<in> set (images8 p)))
   \<and> length (gen_ijkl n) = (n * (n + 1) div 2) * (n * (n + 1) div 2 + 1) div 2
   \<and> (\<forall>u q. length u = length (gen_ijkl n) \<longrightarrow> in_range4 n q \<longrightarrow>
         (\<exists>m < length (gen_ijkl n). q \<in> set (images8 (gen_ijkl n ! m))
            \<and> get4 (eri_dense_of n u) q = u ! m))"
proof (intro conjI ballI allI impI)
  show "distinct (gen_ijkl n)"
    by (rule distinct_gen_ijkl)
  show "in_range4 n p" if "p \<in> set (gen_ijkl n)" for p
    using that gen_ijkl_in_range[of _ _ _ _ n] by (cases p) (auto simp: in_range4_def)
  show "\<exists>!p. p \<in> set (gen_ijkl n) \<and> q \<in> set (images8 p)" if "in_range4 n q" for q
  proof (rule ex1I[of _ "canon q"])
    show "canon q \<in> set (gen_ijkl n) \<and> q \<in> set (images8 (canon q))"
      using that canon_in_gen_ijkl[of _ n] mem_images8_canon[of q]
      by (cases q) (auto simp: in_range4_def)
    show "p = canon q" if "p \<in> set (gen_ijkl n) \<and> q \<in> set (images8 p)" for p
      using that canon_images8[of q p] canon_gen_ijkl[of p n] by simp
  qed
  show "length (gen_ijkl n) = (n * (n + 1) div 2) * (n * (n + 1) div 2 + 1) div 2"
    by (rule length_gen_ijkl)
  show "\<exists>m < length (gen_ijkl n). q \<in> set (images8 (gen_ijkl n ! m))
            \<and> get4 (eri_dense_of n u) q = u ! m"
    if len: "length u = length (gen_ijkl n)" and q: "in_range4 n q" for u q
  proof -
    have "canon q \<in> set (gen_ijkl n)"
      using q canon_in_gen_ijkl[of _ n] by (cases q) (auto simp: in_range4_def)
    then obtain m where m: "m < length (gen_ijkl n)" "gen_ijkl n ! m = canon q"
      by (auto simp: in_set_conv_nth)
    have "get4 (eri_dense_of n u) q = u ! m"
      using len q m by (rule eri_dense_of_entry)
    moreover have "q \<in> set (images8 (gen_ijkl n ! m))"
      unfolding m(2) by (rule mem_images8_canon)
    ultimately show ?thesis
      using m(1) by blast
  qed
qed

theorem gen_ijkl_canonical_witness:
  "(1, 0, 1, 0) \<in> set (gen_ijkl 2) \<and> in_range4 2 (1, 0, 1, 0)
   \<and> in_range4 2 (0, 1, 0, 1)
   \<and> (\<exists>!p. p \<in> set (gen_ijkl 2) \<and> (0, 1, 0, 1) \<in> set (images8 p))
   \<and> length (gen_ijkl 2) = 6
   \<and> length [1, 2, 3, 4, 5, 6 :: real] = length (gen_ijkl 2)
   \<and> (\<exists>m < length (gen_ijkl 2). (0, 1, 0, 1) \<in> set (images8 (gen_ijkl 2 ! m))
        \<and> get4 (eri_dense_of 2 [1, 2, 3, 4, 5, 6]) (0, 1, 0, 1) = [1, 2, 3, 4, 5, 6] ! m)"
proof -
  have a: "(1, 0, 1, 0) \<in> set (gen_ijkl 2)"
    by (simp add: mem_gen_ijkl)
  have b: "in_range4 2 (0, 1, 0, 1)"
    by (simp add: in_range4_def)
  have c: "(2 * (2 + 1) div 2) * (2 * (2 + 1) div 2 + 1) div 2 = (6::nat)"
    by simp
  have d: "length [1, 2, 3, 4, 5, 6 :: real] = length (gen_ijkl 2)"
    using length_gen_ijkl[of 2] by simp
  from gen_ijkl_canonical[of 2] a b c d show ?thesis
    by (metis (no_types, lifting))
qed

subsection \<open>Batched and unbatched sparse evaluation\<close>

lemma expand_ijkl_snoc:
  "expand_ijkl offset (ijkl @ [q]) = expand_step offset (length ijkl, q) (expand_ijkl offset ijkl)"
  by (simp add: expand_ijkl_def enumerate_append_eq)

lemma length_tags:
  "length (concat (map (\<lambda>(c, x). replicate (length (f x)) (int c)) (enumerate c0 xs)))
     = length (concat (map f xs))"
  by (induction xs arbitrary: c0) auto

lemma expand_ijkl_eq:
  "expand_ijkl offset ijkl =
     (concat (map (mesh_product offset) ijkl),
      concat (map (\<lambda>(c, q). replicate (length (mesh_product offset q)) (int c)) (enumerate 0 ijkl)))"
proof (induction ijkl rule: rev_induct)
  case Nil
  then show ?case by (simp add: expand_ijkl_def)
next
  case (snoc q ijkl)
  show ?case
    unfolding expand_ijkl_snoc snoc.IH
    by (simp add: expand_step_def Let_def length_tags enumerate_append_eq)
qed

lemma zip_tags:
  "zip (concat (map f xs)) (concat (map (\<lambda>(c, x). replicate (length (f x)) (int c)) (enumerate c0 xs)))
     = concat (map (\<lambda>(c, x). map (\<lambda>d. (d, int c)) (f x)) (enumerate c0 xs))"
  by (induction xs arbitrary: c0) (auto simp: zip_replicate2)

lemma segment_of_tags:
  "sum_list (map fst (filter (\<lambda>(d, k). k = int s)
       (concat (map (\<lambda>(c, x). map (\<lambda>d. (d, int c)) (f x)) (enumerate c0 xs)))))
     = (if c0 \<le> s \<and> s < c0 + length xs then sum_list (f (xs ! (s - c0))) else (0::real))"
proof (induction xs arbitrary: c0)
  case Nil
  then show ?case by simp
next
  case (Cons x xs)
  have hd: "map fst (filter (\<lambda>(d, k). k = int s) (map (\<lambda>d. (d, int c0)) (f x)))
      = (if s = c0 then f x else [])"
    by (induction "f x") (auto simp: filter_map comp_def)
  show ?case
    using Cons.IH[of "Suc c0"] by (auto simp: hd nth_Cons' Suc_diff_le)
qed

lemma segment_sum_tags:
  "segment_sum (concat (map f xs))
       (concat (map (\<lambda>(c, x). replicate (length (f x)) (int c)) (enumerate 0 xs))) (length xs)
     = map (\<lambda>x. sum_list (f x)) xs"
  unfolding segment_sum_def zip_tags
  by (rule nth_equalityI) (simp_all add: segment_of_tags)

lemma eri_segments_eq:
  "eri_segments E b ijkl =
     (if concat (map (mesh_product (offset_of b)) ijkl) = [] then Inl ValueError
      else Inr (map (contract E b) ijkl))"
proof -
  have e: "eris_of E b (concat (map (mesh_product (offset_of b)) ijkl))
      = concat (map (\<lambda>q. eris_of E b (mesh_product (offset_of b) q)) ijkl)"
    by (simp add: eris_of_def map_concat comp_def)
  have l: "\<And>q. length (mesh_product (offset_of b) q) = length (eris_of E b (mesh_product (offset_of b) q))"
    by (simp add: eris_of_def)
  show ?thesis
    unfolding eri_segments_def expand_ijkl_eq
    by (simp add: e l segment_sum_tags contract_def del: concat_eq_Nil_conv)
qed


lemma nth_cumsum:
  "i < length ns \<Longrightarrow> (acc # cumsum acc ns) ! (i + 1) = (acc # cumsum acc ns) ! i + ns ! i"
proof (induction ns arbitrary: acc i)
  case Nil
  then show ?case by simp
next
  case (Cons x ns)
  show ?case
  proof (cases i)
    case 0
    then show ?thesis by simp
  next
    case (Suc i')
    then show ?thesis
      using Cons.IH[of i' "acc + x"] Cons.prems by simp
  qed
qed

lemma offset_of_step:
  assumes "i < num_orbitals b"
  shows "offset_of b ! (i + 1) = offset_of b ! i + length (primitives (orbitals b ! i))"
  using assms nth_cumsum[of i "map orbital_num_primitives (orbitals b)" 0]
  by (simp add: offset_of_def num_orbitals_def orbital_num_primitives_def)

lemma product4_nonempty:
  assumes "xs \<noteq> []" "ys \<noteq> []" "zs \<noteq> []" "ws \<noteq> []"
  shows "[(a, b, c, d). a \<leftarrow> xs, b \<leftarrow> ys, c \<leftarrow> zs, d \<leftarrow> ws] \<noteq> []"
  using assms by (cases xs; cases ys; cases zs; cases ws) auto

lemma mesh_product_nonempty:
  assumes "nonempty_orbitals b" and "in_range4 (num_orbitals b) q"
  shows "mesh_product (offset_of b) q \<noteq> []"
proof -
  obtain i j k l where q: "q = (i, j, k, l)" by (cases q) auto
  have lt: "offset_of b ! m < offset_of b ! (m + 1)" if "m < num_orbitals b" for m
    using that assms(1) offset_of_step[of m b]
    by (simp add: nonempty_orbitals_def num_orbitals_def)
  have "[offset_of b ! m..<offset_of b ! (m + 1)] \<noteq> []" if "m < num_orbitals b" for m
    using lt[OF that] by simp
  then have "[offset_of b ! i..<offset_of b ! (i + 1)] \<noteq> []"
      "[offset_of b ! j..<offset_of b ! (j + 1)] \<noteq> []"
      "[offset_of b ! k..<offset_of b ! (k + 1)] \<noteq> []"
      "[offset_of b ! l..<offset_of b ! (l + 1)] \<noteq> []"
    using assms(2) unfolding q in_range4_def by blast+
  then show ?thesis
    unfolding q mesh_product_def prod.case by (rule product4_nonempty)
qed

lemma concat_chunks: "0 < n \<Longrightarrow> concat (chunks n xs) = xs"
proof (induction n xs rule: chunks.induct)
  case (1 n xs)
  then show ?case
    by (subst chunks.simps) simp
qed


lemma chunks_Nil [simp]: "chunks n [] = []"
  by (subst chunks.simps) simp

lemma chunks_nonempty:
  "0 < n \<Longrightarrow> c \<in> set (chunks n xs) \<Longrightarrow> c \<noteq> [] \<and> set c \<subseteq> set xs"
proof (induction n xs rule: chunks.induct)
  case (1 n xs)
  show ?case
  proof (cases "xs = []")
    case True
    with "1.prems" show ?thesis by simp
  next
    case False
    with "1.prems" have "c = take n xs \<or> c \<in> set (chunks n (drop n xs))"
      by (subst (asm) chunks.simps) auto
    then show ?thesis
    proof
      assume "c = take n xs"
      with False "1.prems"(1) show ?thesis
        by (auto dest: in_set_takeD)
    next
      assume c: "c \<in> set (chunks n (drop n xs))"
      have "c \<noteq> [] \<and> set c \<subseteq> set (drop n xs)"
        using "1.IH" False "1.prems"(1) c by simp
      then show ?thesis
        by (auto dest: in_set_dropD)
    qed
  qed
qed

lemma chunks_Nil_iff: "0 < n \<Longrightarrow> chunks n xs = [] \<longleftrightarrow> xs = []"
  by (subst chunks.simps) simp

lemma batched_eris_of_eq:
  assumes "\<forall>c \<in> set cs. eri_segments E b c = Inr (map (contract E b) c)"
  shows "batched_eris_of E b cs = Inr (map (map (contract E b)) cs)"
  using assms by (induction cs) auto

lemma eri_segments_nonempty:
  assumes "nonempty_orbitals b" and "ijkl \<noteq> []" and "\<forall>q \<in> set ijkl. in_range4 (num_orbitals b) q"
  shows "eri_segments E b ijkl = Inr (map (contract E b) ijkl)"
proof -
  obtain q where q: "q \<in> set ijkl"
    using assms(2) by (cases ijkl) auto
  then have "mesh_product (offset_of b) q \<noteq> []"
    using assms(1,3) by (intro mesh_product_nonempty) auto
  then have "concat (map (mesh_product (offset_of b)) ijkl) \<noteq> []"
    using q by auto
  then show ?thesis
    by (simp only: eri_segments_eq if_False)
qed

lemma gen_ijkl_all_in_range: "\<forall>q \<in> set (gen_ijkl n). in_range4 n q"
proof
  fix q assume q: "q \<in> set (gen_ijkl n)"
  obtain i j k l where e: "q = (i, j, k, l)" by (cases q) auto
  show "in_range4 n q"
    using q gen_ijkl_in_range[of i j k l n] unfolding e by (simp add: in_range4_def)
qed

lemma gen_ijkl_Nil_iff: "gen_ijkl n = [] \<longleftrightarrow> n = 0"
  using length_gen_ijkl8[of n] by (cases n) auto

lemma eri_sparse_value:
  assumes "nonempty_orbitals b" and "0 < num_orbitals b"
  shows "eri_basis_sparse E b = Inr (map (contract E b) (gen_ijkl (num_orbitals b)))"
proof -
  have "gen_ijkl (num_orbitals b) \<noteq> []"
    using assms(2) by (simp add: gen_ijkl_Nil_iff)
  with assms(1) show ?thesis
    unfolding eri_basis_sparse_def
    using gen_ijkl_all_in_range by (rule eri_segments_nonempty)
qed

lemma eri_batched_value:
  assumes "nonempty_orbitals b" and "1 \<le> batch_size" and "0 < num_orbitals b"
  shows "eri_basis_sparse_batched E b batch_size
     = Inr (map (contract E b) (gen_ijkl (num_orbitals b)))"
proof -
  let ?qs = "gen_ijkl (num_orbitals b)"
  let ?n = "nat batch_size"
  have n: "0 < ?n" using assms(2) by simp
  have ne: "?qs \<noteq> []"
    using assms(3) by (simp add: gen_ijkl_Nil_iff)
  have "\<forall>c \<in> set (chunks ?n ?qs). eri_segments E b c = Inr (map (contract E b) c)"
  proof
    fix c assume c: "c \<in> set (chunks ?n ?qs)"
    have "c \<noteq> [] \<and> set c \<subseteq> set ?qs"
      using n c by (rule chunks_nonempty)
    then show "eri_segments E b c = Inr (map (contract E b) c)"
      using gen_ijkl_all_in_range[of "num_orbitals b"]
      by (intro eri_segments_nonempty[OF assms(1)]) auto
  qed
  then have be: "batched_eris_of E b (chunks ?n ?qs) = Inr (map (map (contract E b)) (chunks ?n ?qs))"
    by (rule batched_eris_of_eq)
  have "concat (map (map (contract E b)) (chunks ?n ?qs)) = map (contract E b) (concat (chunks ?n ?qs))"
    by (simp add: map_concat)
  also have "\<dots> = map (contract E b) ?qs"
    using n by (simp add: concat_chunks)
  finally have cc: "concat (map (map (contract E b)) (chunks ?n ?qs)) = map (contract E b) ?qs" .
  have "chunks ?n ?qs \<noteq> []"
    using n ne by (simp add: chunks_Nil_iff)
  then show ?thesis
    using assms(2) unfolding eri_basis_sparse_batched_def batched_def
    by (simp add: be cc)
qed

text \<open>
  Where no orbital is empty the two functions agree for every batch size of at least
  1; with at least one orbital, both return the vector that holds, for each quadruple
  of \<open>gen_ijkl\<close> in order, the sum of its weighted kernel values.
\<close>

lemma eri_batched_eq_sparse_nonempty:
  assumes "nonempty_orbitals b" and "1 \<le> batch_size"
  shows "eri_basis_sparse_batched E b batch_size = eri_basis_sparse E b
     \<and> (0 < num_orbitals b \<longrightarrow>
          eri_basis_sparse E b = Inr (map (contract E b) (gen_ijkl (num_orbitals b))))"
proof (cases "num_orbitals b = 0")
  case True
  have g: "gen_ijkl 0 = []"
    by (simp add: gen_ijkl_Nil_iff)
  show ?thesis
    using assms(2) True
    by (simp add: eri_basis_sparse_batched_def eri_basis_sparse_def g batched_def eri_segments_eq)
next
  case False
  then have "0 < num_orbitals b" by simp
  then show ?thesis
    using eri_sparse_value[OF assms(1)] eri_batched_value[OF assms] by simp
qed

lemma batched_eris_of_Inr:
  assumes "batched_eris_of E b cs = Inr segs"
  shows "segs = map (map (contract E b)) cs"
  using assms
proof (induction cs arbitrary: segs)
  case Nil
  then show ?case by simp
next
  case (Cons c cs)
  then show ?case
    by (auto simp: eri_segments_eq split: sum.splits if_splits)
qed

lemma eri_batched_Inr:
  assumes "eri_basis_sparse_batched E b batch_size = Inr u"
  shows "u = map (contract E b) (gen_ijkl (num_orbitals b))"
proof -
  from assms have n: "1 \<le> batch_size"
    by (auto simp: eri_basis_sparse_batched_def batched_def split: if_splits)
  from assms n obtain segs where
    segs: "batched_eris_of E b (chunks (nat batch_size) (gen_ijkl (num_orbitals b))) = Inr segs"
    and u: "u = concat segs"
    by (auto simp: eri_basis_sparse_batched_def batched_def split: sum.splits if_splits)
  have "u = concat (map (map (contract E b)) (chunks (nat batch_size) (gen_ijkl (num_orbitals b))))"
    unfolding u using batched_eris_of_Inr[OF segs] by simp
  also have "\<dots> = map (contract E b) (concat (chunks (nat batch_size) (gen_ijkl (num_orbitals b))))"
    by (simp add: map_concat)
  also have "\<dots> = map (contract E b) (gen_ijkl (num_orbitals b))"
    using n by (simp add: concat_chunks)
  finally show ?thesis .
qed

text \<open>
  For every basis, a vector that \<open>eri_basis_sparse_batched\<close> returns is the vector
  \<open>eri_basis_sparse\<close> returns: the two differ only where the batched function raises.
\<close>

lemma batched_eris_of_Inr_nonempty:
  assumes "batched_eris_of E b cs = Inr segs" and "c \<in> set cs"
  shows "concat (map (mesh_product (offset_of b)) c) \<noteq> []"
  using assms
proof (induction cs arbitrary: segs)
  case Nil
  then show ?case by simp
next
  case (Cons c' cs)
  from Cons.prems(1) obtain seg segs' where
    s: "eri_segments E b c' = Inr seg" "batched_eris_of E b cs = Inr segs'"
    by (auto split: sum.splits)
  show ?case
  proof (cases "c = c'")
    case True
    with s(1) show ?thesis
      by (auto simp: eri_segments_eq split: if_splits)
  next
    case False
    with Cons.prems(2) have "c \<in> set cs" by simp
    then show ?thesis
      using Cons.IH[OF s(2)] by simp
  qed
qed

lemma eri_batched_Inr_sparse:
  assumes "eri_basis_sparse_batched E b batch_size = Inr u"
  shows "eri_basis_sparse E b = Inr u"
proof -
  let ?qs = "gen_ijkl (num_orbitals b)"
  let ?cs = "chunks (nat batch_size) ?qs"
  from assms have n: "0 < nat batch_size"
    by (auto simp: eri_basis_sparse_batched_def batched_def split: if_splits)
  from assms obtain segs where
    segs: "batched_eris_of E b ?cs = Inr segs" and ne: "segs \<noteq> []"
    by (auto simp: eri_basis_sparse_batched_def batched_def split: sum.splits if_splits)
  have "?cs \<noteq> []"
    using batched_eris_of_Inr[OF segs] ne by auto
  then obtain c where c: "c \<in> set ?cs"
    by (cases ?cs) auto
  have "concat (map (mesh_product (offset_of b)) c) \<noteq> []"
    using segs c by (rule batched_eris_of_Inr_nonempty)
  then obtain q where q: "q \<in> set c" "mesh_product (offset_of b) q \<noteq> []"
    by auto
  have "q \<in> set ?qs"
    using chunks_nonempty[OF n c] q(1) by auto
  then have "concat (map (mesh_product (offset_of b)) ?qs) \<noteq> []"
    using q(2) by auto
  then have "eri_basis_sparse E b = Inr (map (contract E b) ?qs)"
    unfolding eri_basis_sparse_def by (simp only: eri_segments_eq if_False)
  then show ?thesis
    using eri_batched_Inr[OF assms] by simp
qed




subsection \<open>Symmetry of the dense tensor\<close>

lemma eri_dense_of_images8:
  assumes len: "length u = length (gen_ijkl n)" and q: "in_range4 n q"
    and q': "q' \<in> set (images8 q)"
  shows "get4 (eri_dense_of n u) q' = get4 (eri_dense_of n u) q"
proof -
  obtain i j k l where e: "q = (i, j, k, l)" by (cases q) auto
  have r: "in_range4 n q'"
    using q q' unfolding e by (auto simp: images8_def in_range4_def)
  have c: "canon q' = canon q"
    using q' by (rule canon_images8)
  have "canon q \<in> set (gen_ijkl n)"
    using q canon_in_gen_ijkl[of _ n] unfolding e by (auto simp: in_range4_def)
  then obtain m where m: "m < length (gen_ijkl n)" "gen_ijkl n ! m = canon q"
    by (auto simp: in_set_conv_nth)
  have "get4 (eri_dense_of n u) q = u ! m"
    using len q m by (rule eri_dense_of_entry)
  moreover have "get4 (eri_dense_of n u) q' = u ! m"
    using len r m(1) m(2)[folded c] by (rule eri_dense_of_entry)
  ultimately show ?thesis by simp
qed

lemma eri_basis_value:
  assumes "nonempty_orbitals b" and "0 < num_orbitals b"
  shows "eri_basis E b
     = Inr (eri_dense_of (num_orbitals b) (map (contract E b) (gen_ijkl (num_orbitals b))))"
  unfolding eri_basis_def using eri_batched_value[OF assms(1) _ assms(2), of "1024 * 1024" E]
  by simp


text \<open>
  Claim C3. Whenever \<open>eri_basis\<close> returns a tensor \<open>G\<close>, it has the 8-fold permutation
  symmetry: \<open>G[i,j,k,l] = G[j,i,k,l] = G[i,j,l,k] = G[k,l,i,j]\<close> for all valid orbital
  indices, and the entries at all eight images of \<open>(i,j,k,l)\<close> are equal. (It returns one for every basis with at least one orbital whose orbitals
  all have a primitive, see \<open>eri_basis_value\<close>.)
\<close>

theorem eri_basis_symmetric:
  assumes "eri_basis E b = Inr G"
    and "i < num_orbitals b" "j < num_orbitals b" "k < num_orbitals b" "l < num_orbitals b"
  shows "G ! i ! j ! k ! l = G ! j ! i ! k ! l
     \<and> G ! j ! i ! k ! l = G ! i ! j ! l ! k
     \<and> G ! i ! j ! l ! k = G ! k ! l ! i ! j
     \<and> (\<forall>q \<in> set (images8 (i, j, k, l)). get4 G q = G ! i ! j ! k ! l)"
proof -
  let ?n = "num_orbitals b"
  from assms(1) obtain u where u: "eri_basis_sparse_batched E b (1024 * 1024) = Inr u"
    and G: "G = eri_dense_of ?n u"
    by (auto simp: eri_basis_def split: sum.splits)
  have len: "length u = length (gen_ijkl ?n)"
    using eri_batched_Inr[OF u] by simp
  have r: "in_range4 ?n (i, j, k, l)"
    using assms(2-5) by (simp add: in_range4_def)
  have "get4 G q = get4 G (i, j, k, l)" if "q \<in> set (images8 (i, j, k, l))" for q
    unfolding G using len r that by (rule eri_dense_of_images8)
  note im = this
  have "\<forall>q \<in> set (images8 (i, j, k, l)). get4 G q = G ! i ! j ! k ! l"
    using im by (simp add: get4_def)
  with im[of "(j, i, k, l)"] im[of "(i, j, l, k)"] im[of "(k, l, i, j)"]
  show ?thesis
    by (simp add: images8_def get4_def)
qed


theorem eri_basis_symmetric_witness:
  "eri_basis spec_env basis_two_orbitals
     = Inr (eri_dense_of 2 (map (contract spec_env basis_two_orbitals) (gen_ijkl 2)))
   \<and> (1::nat) < num_orbitals basis_two_orbitals \<and> (0::nat) < num_orbitals basis_two_orbitals
   \<and> (let G = eri_dense_of 2 (map (contract spec_env basis_two_orbitals) (gen_ijkl 2))
      in G ! 1 ! 0 ! 1 ! 1 = G ! 0 ! 1 ! 1 ! 1
         \<and> G ! 0 ! 1 ! 1 ! 1 = G ! 1 ! 0 ! 1 ! 1
         \<and> G ! 1 ! 0 ! 1 ! 1 = G ! 1 ! 1 ! 1 ! 0)"
proof -
  have a: "nonempty_orbitals basis_two_orbitals"
    by (simp add: nonempty_orbitals_def basis_two_orbitals_def s_orbital_def)
  have n: "num_orbitals basis_two_orbitals = 2"
    by (simp add: num_orbitals_def basis_two_orbitals_def)
  have v: "eri_basis spec_env basis_two_orbitals
     = Inr (eri_dense_of 2 (map (contract spec_env basis_two_orbitals) (gen_ijkl 2)))"
    using eri_basis_value[OF a, of spec_env] by (simp add: n)
  have h1: "(1::nat) < num_orbitals basis_two_orbitals"
    and h0: "(0::nat) < num_orbitals basis_two_orbitals"
    by (simp_all add: n)
  note s = eri_basis_symmetric[OF v h1 h0 h1 h1]
  show ?thesis
    unfolding Let_def using v h1 h0 s by blast
qed

subsection \<open>Dense aggregation\<close>

lemma zip_map_same: "zip (map f xs) (map g xs) = map (\<lambda>x. (f x, g x)) xs"
  by (induction xs) auto

lemma mat_set_get:
  assumes "dims2 r c A"
  shows "dims2 r c (mat_set A p v)"
    and "mat_set A (i, j) v ! i' ! j' = (if i = i' \<and> j = j' \<and> i < r \<and> j < c then v else A ! i' ! j')"
proof -
  obtain a b where p: "p = (a, b)" by (cases p) auto
  show "dims2 r c (mat_set A p v)"
    using assms unfolding p by (auto simp: dims2_def mat_set_def nth_list_update_if)
  show "mat_set A (i, j) v ! i' ! j' = (if i = i' \<and> j = j' \<and> i < r \<and> j < c then v else A ! i' ! j')"
    using assms by (auto simp: dims2_def mat_set_def nth_list_update_if)
qed

lemma scatter_set_Cons:
  "scatter_set A (p # idxs) (v # vals) = scatter_set (mat_set A p v) idxs vals"
  by (simp add: scatter_set_def)

lemma scatter_set_get:
  assumes "dims2 r c A" and "\<forall>(i, j) \<in> set idxs. i < r \<and> j < c" and "distinct idxs"
    and "length vals = length idxs"
  shows "dims2 r c (scatter_set A idxs vals)
     \<and> scatter_set A idxs vals ! i ! j
         = (case map_of (zip idxs vals) (i, j) of None \<Rightarrow> A ! i ! j | Some v \<Rightarrow> v)"
  using assms(4,1,2,3)
proof (induction vals idxs arbitrary: A rule: list_induct2)
  case Nil
  then show ?case by (simp add: scatter_set_def)
next
  case (Cons v vals p idxs)
  obtain a b where p: "p = (a, b)" by (cases p) auto
  have ab: "a < r" "b < c" using Cons.prems(2) unfolding p by auto
  have d: "dims2 r c (mat_set A p v)"
    using Cons.prems(1) by (rule mat_set_get)
  have ih: "dims2 r c (scatter_set (mat_set A p v) idxs vals)
     \<and> scatter_set (mat_set A p v) idxs vals ! i ! j
         = (case map_of (zip idxs vals) (i, j) of None \<Rightarrow> mat_set A p v ! i ! j | Some v \<Rightarrow> v)"
    using Cons.IH[OF d] Cons.prems by simp
  have none: "map_of (zip idxs vals) p = None"
    using Cons.prems(3) Cons.hyps by (simp add: map_of_zip_is_None)
  have g: "mat_set A p v ! i ! j = (if (i, j) = p then v else A ! i ! j)"
    unfolding p using mat_set_get(2)[OF Cons.prems(1), of a b v i j] ab by auto
  show ?case
    unfolding scatter_set_Cons using ih none g by (auto split: option.splits)
qed

lemma length_orbital_index: "length (orbital_index b) = num_primitives b"
proof -
  have "length (concat (map (\<lambda>(i, ob). replicate (orbital_num_primitives ob) (int i)) (enumerate c0 obs)))
      = sum_list (map orbital_num_primitives obs)" for c0 obs
    by (induction obs arbitrary: c0) auto
  then show ?thesis
    by (simp add: orbital_index_def num_primitives_def)
qed

lemma sum_list_swap:
  "sum_list (map (\<lambda>x. sum_list (map (\<lambda>y. f x y) ys)) xs)
     = sum_list (map (\<lambda>y. sum_list (map (\<lambda>x. f x y) xs)) ys)" for f :: "'a \<Rightarrow> 'b \<Rightarrow> real"
proof (induction xs)
  case Nil
  then show ?case by simp
next
  case (Cons x xs)
  then show ?case by (simp add: sum_list_addf)
qed

lemma segment_sum_rows_nth:
  assumes "length data = length ids" and "s < num_segments" and "j < width"
  shows "segment_sum_rows data ids num_segments width ! s ! j
     = sum_list (map (\<lambda>p. data ! p ! j) (filter (\<lambda>p. ids ! p = int s) [0..<length ids]))"
proof -
  have z: "zip data ids = map (\<lambda>p. (data ! p, ids ! p)) [0..<length ids]"
    using assms(1) by (intro nth_equalityI) auto
  have "segment_sum_rows data ids num_segments width ! s ! j
      = sum_list (map (\<lambda>(row, k). row ! j) (filter (\<lambda>(row, k). k = int s) (zip data ids)))"
    using assms(2,3) by (simp add: segment_sum_rows_def)
  also have "\<dots> = sum_list (map (\<lambda>p. data ! p ! j) (filter (\<lambda>p. ids ! p = int s) [0..<length ids]))"
    unfolding z by (simp add: filter_map comp_def)
  finally show ?thesis .
qed

lemma dims2_segment_sum_rows: "dims2 n w (segment_sum_rows data ids n w)"
  by (simp add: dims2_def segment_sum_rows_def)

lemma set_upper_pairs: "set (upper_pairs P) = {(i, j). i \<le> j \<and> j < P}"
  by (auto simp: upper_pairs_def image_iff)

lemma distinct_upper_pairs: "distinct (upper_pairs P)"
  unfolding upper_pairs_def
  by (intro distinct_concat_map distinct_upt) (auto simp: distinct_map inj_on_def)

lemma basis_iter_eq:
  "basis_iter b =
     ((map fst (upper_pairs (num_primitives b)),
       map (\<lambda>(i, j). basis_coefficients b ! i) (upper_pairs (num_primitives b)),
       map (\<lambda>(i, j). basis_primitives b ! i) (upper_pairs (num_primitives b))),
      (map snd (upper_pairs (num_primitives b)),
       map (\<lambda>(i, j). basis_coefficients b ! j) (upper_pairs (num_primitives b)),
       map (\<lambda>(i, j). basis_primitives b ! j) (upper_pairs (num_primitives b))))"
  by (simp add: basis_iter_def Let_def upper_pairs_def[symmetric] split_def comp_def)

lemma integrate_dense_eq:
  "integrate_dense b primitive_op =
     segment_sum_rows
       (mat_T (num_orbitals b) (num_primitives b)
          (segment_sum_rows (completed b primitive_op) (orbital_index b)
             (num_orbitals b) (num_primitives b)))
       (orbital_index b) (num_orbitals b) (num_orbitals b)"
proof -
  have z: "zip (map fst xs) (map snd xs) = xs" for xs :: "(nat \<times> nat) list"
    by (induction xs) auto
  have a: "map (\<lambda>(cl, cr, l, r). cl * cr * primitive_op l r)
        (zip (map (\<lambda>(i, j). basis_coefficients b ! i) xs)
          (zip (map (\<lambda>(i, j). basis_coefficients b ! j) xs)
            (zip (map (\<lambda>(i, j). basis_primitives b ! i) xs)
                 (map (\<lambda>(i, j). basis_primitives b ! j) xs))))
      = map (\<lambda>(i, j). basis_coefficients b ! i * basis_coefficients b ! j
                * primitive_op (basis_primitives b ! i) (basis_primitives b ! j)) xs" for xs
    by (induction xs) auto
  show ?thesis
    unfolding integrate_dense_def basis_iter_eq Let_def prod.case z a
      completed_def scattered_def ..
qed

lemma scattered_nth:
  "dims2 (num_primitives b) (num_primitives b) (scattered b primitive_op)"
  "i < num_primitives b \<Longrightarrow> j < num_primitives b \<Longrightarrow>
     scattered b primitive_op ! i ! j
       = (if i \<le> j then basis_coefficients b ! i * basis_coefficients b ! j
                * primitive_op (basis_primitives b ! i) (basis_primitives b ! j) else 0)"
proof -
  let ?P = "num_primitives b"
  let ?w = "\<lambda>(i, j). basis_coefficients b ! i * basis_coefficients b ! j
                * primitive_op (basis_primitives b ! i) (basis_primitives b ! j)"
  have d0: "dims2 ?P ?P (mat_zeros ?P ?P)"
    by (simp add: dims2_def mat_zeros_def)
  have r: "\<forall>(i, j) \<in> set (upper_pairs ?P). i < ?P \<and> j < ?P"
    by (auto simp: set_upper_pairs)
  have l: "length (map ?w (upper_pairs ?P)) = length (upper_pairs ?P)"
    by simp
  note sg = scatter_set_get[OF d0 r distinct_upper_pairs l]
  show "dims2 ?P ?P (scattered b primitive_op)"
    unfolding scattered_def using sg by simp
  show "scattered b primitive_op ! i ! j
       = (if i \<le> j then basis_coefficients b ! i * basis_coefficients b ! j
                * primitive_op (basis_primitives b ! i) (basis_primitives b ! j) else 0)"
    if "i < ?P" "j < ?P"
    unfolding scattered_def using sg[of i j] that
    by (simp add: map_of_zip_map set_upper_pairs mat_zeros_def)
qed

lemma length_completed: "length (completed b primitive_op) = num_primitives b"
  using scattered_nth(1)[of b primitive_op]
  by (simp add: completed_def mat_sub_def mat_add_def mat_T_def diag_mat_def diag_of_def dims2_def)

lemma completed_nth:
  assumes "p < num_primitives b" and "q < num_primitives b"
  shows "completed b primitive_op ! p ! q = pair_value b primitive_op p q"
proof -
  let ?P = "num_primitives b"
  let ?A = "scattered b primitive_op"
  have d: "length ?A = ?P" "\<And>i. i < ?P \<Longrightarrow> length (?A ! i) = ?P"
    using scattered_nth(1)[of b primitive_op] by (auto simp: dims2_def)
  have "completed b primitive_op ! p ! q
      = ?A ! p ! q + ?A ! q ! p - (if p = q then ?A ! p ! p else 0)"
    using assms
    by (simp add: completed_def mat_sub_def mat_add_def mat_T_def diag_mat_def diag_of_def d)
  also have "\<dots> = pair_value b primitive_op p q"
    using assms by (auto simp: scattered_nth(2) pair_value_def min_def max_def)
  finally show "completed b primitive_op ! p ! q = pair_value b primitive_op p q" .
qed

lemma integrate_dense_nth:
  assumes "s' < num_orbitals b" and "s < num_orbitals b"
  shows "integrate_dense b primitive_op ! s' ! s
     = sum_list (map (\<lambda>q. sum_list (map (\<lambda>p. pair_value b primitive_op p q) (owned_by b s)))
         (owned_by b s'))"
proof -
  let ?P = "num_primitives b" and ?n = "num_orbitals b"
  let ?B = "completed b primitive_op"
  let ?out = "segment_sum_rows ?B (orbital_index b) ?n ?P"
  have l1: "length ?B = length (orbital_index b)"
    by (simp add: length_completed length_orbital_index)
  have o1: "?out ! s ! q = sum_list (map (\<lambda>p. pair_value b primitive_op p q) (owned_by b s))"
    if "q < ?P" for q
  proof -
    have "?out ! s ! q
        = sum_list (map (\<lambda>p. ?B ! p ! q) (filter (\<lambda>p. orbital_index b ! p = int s) [0..<?P]))"
      using segment_sum_rows_nth[OF l1 assms(2) that] by (simp add: length_orbital_index)
    also have "\<dots> = sum_list (map (\<lambda>p. pair_value b primitive_op p q) (owned_by b s))"
      unfolding owned_by_def
      by (rule arg_cong[where f = sum_list], rule map_cong) (auto simp: completed_nth that)
    finally show ?thesis .
  qed
  have l2: "length (mat_T ?n ?P ?out) = length (orbital_index b)"
    by (simp add: mat_T_def length_orbital_index)
  have "integrate_dense b primitive_op ! s' ! s
      = sum_list (map (\<lambda>q. mat_T ?n ?P ?out ! q ! s)
          (filter (\<lambda>q. orbital_index b ! q = int s') [0..<?P]))"
    unfolding integrate_dense_eq
    using segment_sum_rows_nth[OF l2 assms(1) assms(2)] by (simp add: length_orbital_index)
  also have "\<dots> = sum_list (map (\<lambda>q. sum_list (map (\<lambda>p. pair_value b primitive_op p q) (owned_by b s)))
         (owned_by b s'))"
    unfolding owned_by_def
    by (rule arg_cong[where f = sum_list], rule map_cong)
       (auto simp: mat_T_def assms(2) o1[unfolded owned_by_def])
  finally show ?thesis .
qed

lemma dims2_integrate_dense:
  "dims2 (num_orbitals b) (num_orbitals b) (integrate_dense b primitive_op)"
  unfolding integrate_dense_eq by (rule dims2_segment_sum_rows)

lemma pair_value_commute: "pair_value b primitive_op p q = pair_value b primitive_op q p"
  by (simp add: pair_value_def min.commute max.commute)

lemma integrate_dense_symmetric:
  assumes "s' < num_orbitals b" and "s < num_orbitals b"
  shows "integrate_dense b primitive_op ! s' ! s = integrate_dense b primitive_op ! s ! s'"
  unfolding integrate_dense_nth[OF assms] integrate_dense_nth[OF assms(2,1)]
  by (subst sum_list_swap) (simp add: pair_value_commute)

subsection \<open>The one-electron matrices\<close>

lemma integrate_dense_transpose:
  "integrate_dense b primitive_op
     = mat_T (num_orbitals b) (num_orbitals b) (integrate_dense b primitive_op)"
proof -
  have d: "length (integrate_dense b primitive_op) = num_orbitals b"
    "\<And>i. i < num_orbitals b \<Longrightarrow> length (integrate_dense b primitive_op ! i) = num_orbitals b"
    using dims2_integrate_dense[of b primitive_op] by (auto simp: dims2_def)
  show ?thesis
  proof (rule nth_equalityI)
    show "length (integrate_dense b primitive_op)
        = length (mat_T (num_orbitals b) (num_orbitals b) (integrate_dense b primitive_op))"
      by (simp add: d mat_T_def)
    fix i assume "i < length (integrate_dense b primitive_op)"
    then have i: "i < num_orbitals b" by (simp add: d)
    show "integrate_dense b primitive_op ! i
        = mat_T (num_orbitals b) (num_orbitals b) (integrate_dense b primitive_op) ! i"
      using i by (intro nth_equalityI) (simp_all add: d mat_T_def integrate_dense_symmetric)
  qed
qed

text \<open>
  Claim C6. \<open>integrate_dense\<close> scatters, for the pairs \<open>i \<le> j\<close> of primitive positions
  that \<open>basis_iter\<close> yields and for no other pair, the kernel value weighted by both
  contraction coefficients into a \<open>num_primitives \<times> num_primitives\<close> matrix \<open>A\<close>;
  \<open>A + A.T - diag(A)\<close> then holds at \<open>(p, q)\<close> the value of the unordered pair, the
  diagonal once; and the result is the segment sum of that matrix by owning orbital
  along both axes, a \<open>num_orbitals \<times> num_orbitals\<close> matrix whose entry \<open>(s', s)\<close> is
  the sum of the pair values over the primitives of orbital \<open>s'\<close> and of orbital \<open>s\<close>.
\<close>

theorem integrate_dense_correct:
  "(\<forall>i < num_primitives b. \<forall>j < num_primitives b.
       scattered b primitive_op ! i ! j
         = (if i \<le> j then basis_coefficients b ! i * basis_coefficients b ! j
                * primitive_op (basis_primitives b ! i) (basis_primitives b ! j) else 0))
   \<and> dims2 (num_primitives b) (num_primitives b) (scattered b primitive_op)
   \<and> (\<forall>p < num_primitives b. \<forall>q < num_primitives b.
         completed b primitive_op ! p ! q = pair_value b primitive_op p q)
   \<and> integrate_dense b primitive_op
       = segment_sum_rows
           (mat_T (num_orbitals b) (num_primitives b)
              (segment_sum_rows (completed b primitive_op) (orbital_index b)
                 (num_orbitals b) (num_primitives b)))
           (orbital_index b) (num_orbitals b) (num_orbitals b)
   \<and> dims2 (num_orbitals b) (num_orbitals b) (integrate_dense b primitive_op)
   \<and> (\<forall>s' < num_orbitals b. \<forall>s < num_orbitals b.
         integrate_dense b primitive_op ! s' ! s
           = sum_list (map (\<lambda>q. sum_list (map (\<lambda>p. pair_value b primitive_op p q) (owned_by b s)))
               (owned_by b s')))"
  using scattered_nth[where b = b and primitive_op = primitive_op]
    completed_nth[where b = b and primitive_op = primitive_op]
    integrate_dense_eq[of b primitive_op] dims2_integrate_dense[of b primitive_op]
    integrate_dense_nth[where b = b and primitive_op = primitive_op]
  by (intro conjI allI impI) auto

theorem integrate_dense_correct_witness:
  "(0::nat) < num_primitives basis_two_orbitals \<and> (1::nat) < num_primitives basis_two_orbitals
   \<and> completed basis_two_orbitals (overlap_primitives spec_env) ! 1 ! 0
       = pair_value basis_two_orbitals (overlap_primitives spec_env) 1 0
   \<and> (0::nat) < num_orbitals basis_two_orbitals \<and> (1::nat) < num_orbitals basis_two_orbitals
   \<and> integrate_dense basis_two_orbitals (overlap_primitives spec_env) ! 1 ! 0
       = sum_list (map (\<lambda>q. sum_list (map (\<lambda>p. pair_value basis_two_orbitals (overlap_primitives spec_env) p q)
                 (owned_by basis_two_orbitals 0)))
               (owned_by basis_two_orbitals 1))"
proof -
  have n: "num_orbitals basis_two_orbitals = 2" "num_primitives basis_two_orbitals = 2"
    by (simp_all add: num_orbitals_def num_primitives_def basis_two_orbitals_def
        orbital_num_primitives_def s_orbital_def)
  have h: "(0::nat) < num_primitives basis_two_orbitals" "(1::nat) < num_primitives basis_two_orbitals"
    "(0::nat) < num_orbitals basis_two_orbitals" "(1::nat) < num_orbitals basis_two_orbitals"
    by (simp_all add: n)
  from integrate_dense_correct[of basis_two_orbitals "overlap_primitives spec_env"] h
  show ?thesis
    by blast
qed

lemma nuclear_basis_eq:
  "nuclear_basis E b
     = map (nuclear_contribution E b)
         (zip (atomic_number (structure_b b)) (position (structure_b b)))"
  by (simp add: nuclear_basis_def nuclear_contribution_def integrate_def Let_def)

lemma nuclear_basis_two_nuclei:
  "nuclear_basis E basis_two_nuclei
     = [nuclear_contribution E basis_two_nuclei (1, (0, 0, 0)),
        nuclear_contribution E basis_two_nuclei (8, (0, 0, 2))]"
  by (simp add: nuclear_basis_eq basis_two_nuclei_def two_nuclei_def)

text \<open>
  Claim C8, as amended. For every basis the matrices \<open>overlap_basis\<close> and
  \<open>kinetic_basis\<close> return are \<open>num_orbitals \<times> num_orbitals\<close> and equal to their
  transposes, and so is each of the matrices, one per nucleus, that \<open>nuclear_basis\<close>
  returns.
\<close>

theorem basis_matrices_symmetric:
  "dims2 (num_orbitals b) (num_orbitals b) (overlap_basis E b)
   \<and> overlap_basis E b = mat_T (num_orbitals b) (num_orbitals b) (overlap_basis E b)
   \<and> dims2 (num_orbitals b) (num_orbitals b) (kinetic_basis E b)
   \<and> kinetic_basis E b = mat_T (num_orbitals b) (num_orbitals b) (kinetic_basis E b)
   \<and> (\<forall>V \<in> set (nuclear_basis E b).
         dims2 (num_orbitals b) (num_orbitals b) V
         \<and> V = mat_T (num_orbitals b) (num_orbitals b) V)"
proof (intro conjI ballI)
  show "dims2 (num_orbitals b) (num_orbitals b) (overlap_basis E b)"
    unfolding overlap_basis_def integrate_def by (rule dims2_integrate_dense)
  show "overlap_basis E b = mat_T (num_orbitals b) (num_orbitals b) (overlap_basis E b)"
    unfolding overlap_basis_def integrate_def by (rule integrate_dense_transpose)
  show "dims2 (num_orbitals b) (num_orbitals b) (kinetic_basis E b)"
    unfolding kinetic_basis_def integrate_def by (rule dims2_integrate_dense)
  show "kinetic_basis E b = mat_T (num_orbitals b) (num_orbitals b) (kinetic_basis E b)"
    unfolding kinetic_basis_def integrate_def by (rule integrate_dense_transpose)
  fix V assume "V \<in> set (nuclear_basis E b)"
  then obtain Z c where V: "V = nuclear_contribution E b (Z, c)"
    unfolding nuclear_basis_eq by auto
  show "dims2 (num_orbitals b) (num_orbitals b) V"
    unfolding V nuclear_contribution_def prod.case by (rule dims2_integrate_dense)
  show "V = mat_T (num_orbitals b) (num_orbitals b) V"
    unfolding V nuclear_contribution_def prod.case by (rule integrate_dense_transpose)
qed

theorem basis_matrices_symmetric_witness:
  "nuclear_contribution spec_env basis_two_nuclei (8, (0, 0, 2))
     \<in> set (nuclear_basis spec_env basis_two_nuclei)
   \<and> nuclear_contribution spec_env basis_two_nuclei (8, (0, 0, 2))
       = mat_T (num_orbitals basis_two_nuclei) (num_orbitals basis_two_nuclei)
           (nuclear_contribution spec_env basis_two_nuclei (8, (0, 0, 2)))
   \<and> overlap_basis spec_env basis_two_nuclei
       = mat_T (num_orbitals basis_two_nuclei) (num_orbitals basis_two_nuclei)
           (overlap_basis spec_env basis_two_nuclei)"
proof -
  have m: "nuclear_contribution spec_env basis_two_nuclei (8, (0, 0, 2))
     \<in> set (nuclear_basis spec_env basis_two_nuclei)"
    unfolding nuclear_basis_two_nuclei by simp
  from basis_matrices_symmetric[of basis_two_nuclei spec_env] m show ?thesis
    by blast
qed

theorem nuclear_stack_transpose_counterexample:
  "length (nuclear_basis spec_env basis_two_nuclei) = 2
   \<and> num_orbitals basis_two_nuclei = 1
   \<and> length (stack_T 2 1 (nuclear_basis spec_env basis_two_nuclei)) = 1
   \<and> nuclear_basis spec_env basis_two_nuclei
       \<noteq> stack_T 2 1 (nuclear_basis spec_env basis_two_nuclei)"
proof -
  have a: "length (nuclear_basis spec_env basis_two_nuclei) = 2"
    unfolding nuclear_basis_two_nuclei by simp
  have b: "length (stack_T 2 1 (nuclear_basis spec_env basis_two_nuclei)) = 1"
    by (simp add: stack_T_def)
  have c: "num_orbitals basis_two_nuclei = 1"
    by (simp add: num_orbitals_def basis_two_nuclei_def)
  from a b have "nuclear_basis spec_env basis_two_nuclei
       \<noteq> stack_T 2 1 (nuclear_basis spec_env basis_two_nuclei)"
    by (metis numeral_eq_one_iff semiring_norm(85))
  with a b c show ?thesis by simp
qed

text \<open>
  Claim C1, as amended. For every basis, \<open>nuclear_basis\<close> returns one matrix per
  nucleus, in the order of the nuclei: the contribution of that nucleus, which is the
  orbital-aggregated primitive nuclear-attraction kernel weighted by its atomic
  number. Each of them is a symmetric \<open>num_orbitals \<times> num_orbitals\<close> matrix, and the
  sum over the nuclei that the spec describes is the sum of the returned matrices.
\<close>

theorem nuclear_basis_per_nucleus:
  "nuclear_basis E b
     = map (nuclear_contribution E b)
         (zip (atomic_number (structure_b b)) (position (structure_b b)))
   \<and> (\<forall>m < length (nuclear_basis E b).
         dims2 (num_orbitals b) (num_orbitals b) (nuclear_basis E b ! m)
         \<and> (\<forall>i < num_orbitals b. \<forall>j < num_orbitals b.
               nuclear_basis E b ! m ! i ! j = nuclear_basis E b ! m ! j ! i))
   \<and> foldl mat_add (mat_zeros (num_orbitals b) (num_orbitals b)) (nuclear_basis E b)
       = nuclear_sum E b"
proof (intro conjI allI impI)
  show e: "nuclear_basis E b
     = map (nuclear_contribution E b)
         (zip (atomic_number (structure_b b)) (position (structure_b b)))"
    by (rule nuclear_basis_eq)
  show "foldl mat_add (mat_zeros (num_orbitals b) (num_orbitals b)) (nuclear_basis E b)
       = nuclear_sum E b"
    by (simp add: nuclear_sum_def nuclear_basis_eq)
  fix m assume m: "m < length (nuclear_basis E b)"
  obtain Z c where V: "nuclear_basis E b ! m = nuclear_contribution E b (Z, c)"
    using m unfolding nuclear_basis_eq by (cases "zip (atomic_number (structure_b b)) (position (structure_b b)) ! m") auto
  show "dims2 (num_orbitals b) (num_orbitals b) (nuclear_basis E b ! m)"
    unfolding V nuclear_contribution_def prod.case by (rule dims2_integrate_dense)
  fix i j assume "i < num_orbitals b" "j < num_orbitals b"
  then show "nuclear_basis E b ! m ! i ! j = nuclear_basis E b ! m ! j ! i"
    unfolding V nuclear_contribution_def prod.case by (rule integrate_dense_symmetric)
qed

theorem nuclear_basis_per_nucleus_witness:
  "(1::nat) < length (nuclear_basis spec_env basis_two_nuclei)
   \<and> (0::nat) < num_orbitals basis_two_nuclei
   \<and> nuclear_basis spec_env basis_two_nuclei ! 1
       = nuclear_contribution spec_env basis_two_nuclei (8, (0, 0, 2))
   \<and> dims2 (num_orbitals basis_two_nuclei) (num_orbitals basis_two_nuclei)
        (nuclear_basis spec_env basis_two_nuclei ! 1)
   \<and> nuclear_basis spec_env basis_two_nuclei ! 1 ! 0 ! 0
       = nuclear_basis spec_env basis_two_nuclei ! 1 ! 0 ! 0"
proof -
  have a: "(1::nat) < length (nuclear_basis spec_env basis_two_nuclei)"
    unfolding nuclear_basis_two_nuclei by simp
  have c: "(0::nat) < num_orbitals basis_two_nuclei"
    by (simp add: num_orbitals_def basis_two_nuclei_def)
  have d: "nuclear_basis spec_env basis_two_nuclei ! 1
       = nuclear_contribution spec_env basis_two_nuclei (8, (0, 0, 2))"
    unfolding nuclear_basis_two_nuclei by simp
  from nuclear_basis_per_nucleus[of spec_env basis_two_nuclei] a c d show ?thesis
    by blast
qed

theorem nuclear_basis_single_matrix_counterexample:
  "nuclear_basis spec_env basis_two_nuclei
     = [nuclear_contribution spec_env basis_two_nuclei (1, (0, 0, 0)),
        nuclear_contribution spec_env basis_two_nuclei (8, (0, 0, 2))]
   \<and> nuclear_basis spec_env basis_two_nuclei \<noteq> [nuclear_sum spec_env basis_two_nuclei]"
  unfolding nuclear_basis_two_nuclei by simp

subsection \<open>The coefficient H of the electron-repulsion kernel\<close>

lemma H_forms:
  assumes "0 \<le> r" and "2 * r \<le> i" and "0 < gamma"
  shows "H E l1 l2 a b i r gamma
           = factorial E i * jnp_take (binom_factor E l1 l2 a b (Some (2 * LMAX E))) i
             / (factorial E r * factorial E (i - 2 * r) * (4 * gamma) ^ nat (i - r))"
    and "H E l1 l2 a b i r gamma
           = factorial E i * jnp_take (binom_factor E l1 l2 a b (Some (2 * LMAX E))) i
             / (factorial E r * factorial E (i - 2 * r)) * (4 * gamma) powi (r - i)"
    and "H E l1 l2 a b i r gamma = H_tho E l1 l2 a b i r gamma * (4 * gamma) powi (- r)"
proof -
  have g: "4 * gamma \<noteq> 0" using assms(3) by simp
  have n: "0 \<le> i - r" using assms(1,2) by linarith
  show "H E l1 l2 a b i r gamma
           = factorial E i * jnp_take (binom_factor E l1 l2 a b (Some (2 * LMAX E))) i
             / (factorial E r * factorial E (i - 2 * r) * (4 * gamma) ^ nat (i - r))"
    by (simp add: H_def Let_def power_int_nonneg_exp[OF n])
  have "(4 * gamma) powi (r - i) = inverse ((4 * gamma) powi (i - r))"
    using power_int_minus[of "4 * gamma" "i - r"] by simp
  then show "H E l1 l2 a b i r gamma
           = factorial E i * jnp_take (binom_factor E l1 l2 a b (Some (2 * LMAX E))) i
             / (factorial E r * factorial E (i - 2 * r)) * (4 * gamma) powi (r - i)"
    by (simp add: H_def Let_def field_simps)
  have "(4 * gamma) powi (i - 2 * r) = (4 * gamma) powi (i - r) * (4 * gamma) powi (- r)"
    using power_int_add[of "4 * gamma" "i - r" "- r"] g by simp
  then show "H E l1 l2 a b i r gamma = H_tho E l1 l2 a b i r gamma * (4 * gamma) powi (- r)"
    using g by (simp add: H_def H_tho_def Let_def power_int_minus field_simps)
qed

text \<open>
  Claim C4. For every index tuple of \<open>cindex\<close> and positive exponents, the
  coefficient \<open>H\<close> the ERI kernel uses for \<open>(i1, r1)\<close> and for \<open>(i2, r2)\<close> is
  \<open>factorial(i) * binom_factor(l1, l2, a, b, 2 LMAX)[i]\<close> divided by
  \<open>factorial(r) * factorial(i - 2r) * (4 gamma)\<^bsup>i - r\<^esup>\<close>; equivalently the quotient
  without the power, multiplied by \<open>(4 gamma)\<^bsup>r - i\<^esup>\<close>. It is the form with
  \<open>(4 gamma)\<^bsup>i - 2r\<^esup>\<close> in the denominator multiplied by \<open>(4 gamma)\<^bsup>-r\<^esup>\<close>.
\<close>

theorem H_coefficient:
  assumes "(i1, i2, r1, r2, u) \<in> set (build_cindex (LMAX E))"
    and "0 < palpha" and "0 < qalpha"
  shows "H E la lb pa pb i1 r1 palpha
           = factorial E i1 * jnp_take (binom_factor E la lb pa pb (Some (2 * LMAX E))) i1
             / (factorial E r1 * factorial E (i1 - 2 * r1) * (4 * palpha) ^ nat (i1 - r1))
     \<and> H E la lb pa pb i1 r1 palpha
           = factorial E i1 * jnp_take (binom_factor E la lb pa pb (Some (2 * LMAX E))) i1
             / (factorial E r1 * factorial E (i1 - 2 * r1)) * (4 * palpha) powi (r1 - i1)
     \<and> H E la lb pa pb i1 r1 palpha = H_tho E la lb pa pb i1 r1 palpha * (4 * palpha) powi (- r1)
     \<and> H E lc ld qc qd i2 r2 qalpha
           = factorial E i2 * jnp_take (binom_factor E lc ld qc qd (Some (2 * LMAX E))) i2
             / (factorial E r2 * factorial E (i2 - 2 * r2) * (4 * qalpha) ^ nat (i2 - r2))
     \<and> H E lc ld qc qd i2 r2 qalpha
           = factorial E i2 * jnp_take (binom_factor E lc ld qc qd (Some (2 * LMAX E))) i2
             / (factorial E r2 * factorial E (i2 - 2 * r2)) * (4 * qalpha) powi (r2 - i2)
     \<and> H E lc ld qc qd i2 r2 qalpha = H_tho E lc ld qc qd i2 r2 qalpha * (4 * qalpha) powi (- r2)
     \<and> 0 \<le> i1 \<and> i1 \<le> 2 * LMAX E \<and> 0 \<le> i2 \<and> i2 \<le> 2 * LMAX E"
proof -
  from assms(1) have h: "0 \<le> i1" "i1 < 2 * LMAX E + 1" "0 \<le> i2" "i2 < 2 * LMAX E + 1"
      "0 \<le> r1" "r1 < i1 div 2 + 1" "0 \<le> r2" "r2 < i2 div 2 + 1"
    by (simp_all add: mem_build_cindex)
  have r: "2 * r1 \<le> i1" "2 * r2 \<le> i2"
    using h by presburger+
  show ?thesis
    using H_forms[OF h(5) r(1) assms(2)] H_forms[OF h(7) r(2) assms(3)] h by simp
qed

theorem H_coefficient_witness:
  "(2, 3, 1, 0, 1) \<in> set (build_cindex (LMAX spec_env)) \<and> (0::real) < 1 \<and> (0::real) < 2
   \<and> H spec_env 1 1 0 0 2 1 1 = H_tho spec_env 1 1 0 0 2 1 1 * (4 * 1) powi (- 1)
   \<and> H spec_env 1 2 0 0 3 0 2 = H_tho spec_env 1 2 0 0 3 0 2 * (4 * 2) powi (- 0)"
proof -
  have m: "(2, 3, 1, 0, 1) \<in> set (build_cindex (LMAX spec_env))"
    by (simp add: mem_build_cindex spec_env_def)
  have p: "(0::real) < 1" "(0::real) < 2" by simp_all
  from H_coefficient[OF m p, of 1 1 0 0 1 2 0 0] m show ?thesis
    by simp
qed

subsection \<open>Overlap and kinetic kernels\<close>

lemma sum_list_masked:
  "sum_list (map (\<lambda>x. if P x then f x else (0::real)) xs) = sum_list (map f (filter P xs))"
  by (induction xs) auto

lemma mem_overlap_idx:
  "(s, t) \<in> set (overlap_idx L) \<longleftrightarrow> 0 \<le> s \<and> s < L + 1 \<and> 0 \<le> t \<and> t < 2 * s + 1"
  unfolding overlap_idx_def by (simp add: set_py_range image_iff)

lemma overlap_axis_filter:
  "overlap_axis E palpha i j a b
     = sum_list (map (overlap_term E palpha i j a b)
         (filter (overlap_mask i j) (overlap_idx (LMAX E))))"
  unfolding overlap_axis_def by (rule sum_list_masked)


lemma contributing_pairs:
  assumes "0 \<le> i" and "0 \<le> j" and "i + j \<le> 2 * L"
  shows "set (filter (overlap_mask i j) (overlap_idx L))
     = {(s, t). 0 \<le> s \<and> 0 \<le> t \<and> t \<le> 2 * s \<and> 2 * s - t \<le> i \<and> t \<le> j}"
  using assms by (auto simp: overlap_mask_def mem_overlap_idx)


lemma overlap_primitives_eq:
  "overlap_primitives E a b =
     (pi / alpha (product E a b)) powr (3 / 2) * norm_p (product E a b)
     * (overlap_axis E (alpha (product E a b)) (axis (lmn a) 0) (axis (lmn b) 0)
          (axis (vsub (center (product E a b)) (center a)) 0)
          (axis (vsub (center (product E a b)) (center b)) 0)
        * overlap_axis E (alpha (product E a b)) (axis (lmn a) 1) (axis (lmn b) 1)
          (axis (vsub (center (product E a b)) (center a)) 1)
          (axis (vsub (center (product E a b)) (center b)) 1)
        * overlap_axis E (alpha (product E a b)) (axis (lmn a) 2) (axis (lmn b) 2)
          (axis (vsub (center (product E a b)) (center a)) 2)
          (axis (vsub (center (product E a b)) (center b)) 2))"
  by (simp add: overlap_primitives_def Let_def prod3_def vmap_axes_def)

text \<open>
  Claim C7. For each axis, the sum of the overlap kernel is the sum of the terms of
  exactly the enumerated pairs \<open>(s, t)\<close> with \<open>2s - t \<le> i\<close> and \<open>t \<le> j\<close>; every other
  pair contributes exactly 0, so what the term of a masked pair evaluates to has no
  influence on the sum. For angular momenta within \<open>LMAX\<close> the contributing pairs are
  all pairs with \<open>0 \<le> t \<le> 2s\<close>, \<open>2s - t \<le> i\<close> and \<open>t \<le> j\<close>. The kernel is
  \<open>(pi / alpha)\<^bsup>1.5\<^esup>\<close> times the prefactor of the Gaussian product times the product
  of the three axis sums.
\<close>

theorem overlap_masked_sum:
  "overlap_axis E palpha i j a b
     = sum_list (map (overlap_term E palpha i j a b)
         (filter (\<lambda>(s, t). 2 * s - t \<le> i \<and> t \<le> j) (overlap_idx (LMAX E))))
   \<and> (\<forall>st \<in> set (overlap_idx (LMAX E)).
         \<not> (case st of (s, t) \<Rightarrow> 2 * s - t \<le> i \<and> t \<le> j) \<longrightarrow>
         (if overlap_mask i j st then overlap_term E palpha i j a b st else 0) = 0)
   \<and> (\<forall>E'. LMAX E' = LMAX E
         \<and> (\<forall>st \<in> set (overlap_idx (LMAX E)). overlap_mask i j st \<longrightarrow>
               overlap_term E' palpha i j a b st = overlap_term E palpha i j a b st)
         \<longrightarrow> overlap_axis E' palpha i j a b = overlap_axis E palpha i j a b)
   \<and> (0 \<le> i \<and> i \<le> LMAX E \<and> 0 \<le> j \<and> j \<le> LMAX E \<longrightarrow>
         set (filter (overlap_mask i j) (overlap_idx (LMAX E)))
           = {(s, t). 0 \<le> s \<and> 0 \<le> t \<and> t \<le> 2 * s \<and> 2 * s - t \<le> i \<and> t \<le> j})
   \<and> overlap_primitives E p q =
        (pi / alpha (product E p q)) powr (3 / 2) * norm_p (product E p q)
        * (overlap_axis E (alpha (product E p q)) (axis (lmn p) 0) (axis (lmn q) 0)
             (axis (vsub (center (product E p q)) (center p)) 0)
             (axis (vsub (center (product E p q)) (center q)) 0)
           * overlap_axis E (alpha (product E p q)) (axis (lmn p) 1) (axis (lmn q) 1)
             (axis (vsub (center (product E p q)) (center p)) 1)
             (axis (vsub (center (product E p q)) (center q)) 1)
           * overlap_axis E (alpha (product E p q)) (axis (lmn p) 2) (axis (lmn q) 2)
             (axis (vsub (center (product E p q)) (center p)) 2)
             (axis (vsub (center (product E p q)) (center q)) 2))"
proof (intro conjI ballI allI impI)
  have m: "overlap_mask i j = (\<lambda>(s, t). 2 * s - t \<le> i \<and> t \<le> j)"
    by (auto simp: overlap_mask_def fun_eq_iff)
  show "overlap_axis E palpha i j a b
     = sum_list (map (overlap_term E palpha i j a b)
         (filter (\<lambda>(s, t). 2 * s - t \<le> i \<and> t \<le> j) (overlap_idx (LMAX E))))"
    unfolding m[symmetric] by (rule overlap_axis_filter)
  show "(if overlap_mask i j st then overlap_term E palpha i j a b st else 0) = 0"
    if "\<not> (case st of (s, t) \<Rightarrow> 2 * s - t \<le> i \<and> t \<le> j)" for st
    using that unfolding m by simp
  show "overlap_axis E' palpha i j a b = overlap_axis E palpha i j a b"
    if "LMAX E' = LMAX E
         \<and> (\<forall>st \<in> set (overlap_idx (LMAX E)). overlap_mask i j st \<longrightarrow>
               overlap_term E' palpha i j a b st = overlap_term E palpha i j a b st)" for E'
    unfolding overlap_axis_filter using that
    by (intro arg_cong[where f = sum_list]) (auto intro!: map_cong)
  show "set (filter (overlap_mask i j) (overlap_idx (LMAX E)))
           = {(s, t). 0 \<le> s \<and> 0 \<le> t \<and> t \<le> 2 * s \<and> 2 * s - t \<le> i \<and> t \<le> j}"
    if "0 \<le> i \<and> i \<le> LMAX E \<and> 0 \<le> j \<and> j \<le> LMAX E"
    using that by (intro contributing_pairs) auto
  show "overlap_primitives E p q =
        (pi / alpha (product E p q)) powr (3 / 2) * norm_p (product E p q)
        * (overlap_axis E (alpha (product E p q)) (axis (lmn p) 0) (axis (lmn q) 0)
             (axis (vsub (center (product E p q)) (center p)) 0)
             (axis (vsub (center (product E p q)) (center q)) 0)
           * overlap_axis E (alpha (product E p q)) (axis (lmn p) 1) (axis (lmn q) 1)
             (axis (vsub (center (product E p q)) (center p)) 1)
             (axis (vsub (center (product E p q)) (center q)) 1)
           * overlap_axis E (alpha (product E p q)) (axis (lmn p) 2) (axis (lmn q) 2)
             (axis (vsub (center (product E p q)) (center p)) 2)
             (axis (vsub (center (product E p q)) (center q)) 2))"
    by (rule overlap_primitives_eq)
qed

theorem overlap_masked_sum_witness:
  "(2, 0) \<in> set (overlap_idx (LMAX spec_env))
   \<and> \<not> (case (2, 0) of (s, t) \<Rightarrow> 2 * s - t \<le> (1::int) \<and> t \<le> (1::int))
   \<and> (if overlap_mask 1 1 (2, 0) then overlap_term spec_env 2 1 1 0 0 (2, 0) else 0) = 0
   \<and> (0::int) \<le> 1 \<and> 1 \<le> LMAX spec_env
   \<and> set (filter (overlap_mask 1 1) (overlap_idx (LMAX spec_env)))
        = {(s, t). 0 \<le> s \<and> 0 \<le> t \<and> t \<le> 2 * s \<and> 2 * s - t \<le> 1 \<and> t \<le> 1}"
proof -
  have a: "(2, 0) \<in> set (overlap_idx (LMAX spec_env))"
    by (simp add: mem_overlap_idx spec_env_def)
  have b: "\<not> (case (2, 0) of (s, t) \<Rightarrow> 2 * s - t \<le> (1::int) \<and> t \<le> (1::int))"
    by simp
  have c: "(0::int) \<le> 1 \<and> 1 \<le> LMAX spec_env \<and> (0::int) \<le> 1 \<and> 1 \<le> LMAX spec_env"
    by (simp add: spec_env_def)
  from overlap_masked_sum[of spec_env 2 1 1 0 0 s_primitive s_primitive] a b c show ?thesis
    by blast
qed





end
